theory Spec2Isabelle
  imports Main "HOL-Library.Char_ord" "HOL-Library.List_Lexorder" "HOL-Library.AList"
begin

section \<open>The Redis-backed cluster peer (pkg/services/ngalert/notifier/redis\_peer.go)\<close>

text \<open>
  The peer talks to three collaborators that live outside the repository: the Redis
  client, the protocol-buffer codec and the registered \<open>cluster.State\<close> objects.
  Their replies are inputs of the model (arguments of the functions below), their
  methods are parameters, and the commands the peer issues to them are recorded in
  the peer's list of effects. Calls to the logger change nothing the peer can observe
  and are left out. Strings and byte slices are lists of bytes.
\<close>

subsection \<open>Time\<close>

text \<open>
  A \<open>time.Time\<close> is an instant, counted in nanoseconds since the Unix epoch, and a
  \<open>time.Duration\<close> is a number of nanoseconds. A clock reading and the sums and
  comparisons made with it are exact. \<open>time.Unix(sec, 0)\<close> is not, at the far end:
  the package keeps the seconds of a \<open>Time\<close> in a signed 64-bit count that
  starts at year 1, so it adds \<open>unixToInternal\<close>, the seconds from year 1 to 1970, to
  \<open>sec\<close> in 64-bit arithmetic, and for the largest values of \<open>sec\<close> the sum wraps
  around into the distant past (the documentation: not all sec values have a
  corresponding time value; one such value is the largest int64 value).
\<close>

type_synonym time = int
type_synonym duration = int

definition Second :: duration where
  "Second = 1000000000"

definition Minute :: duration where
  "Minute = 60 * Second"

definition networkRetryInterval :: duration where
  "networkRetryInterval = Second * 10"

definition unixToInternal :: int where
  "unixToInternal = (1969 * 365 + 1969 div 4 - 1969 div 100 + 1969 div 400) * 86400"

definition int64 :: "int \<Rightarrow> int" where
  \<comment> \<open>the value of a 64-bit two's complement result\<close>
  "int64 x = (x + 2 ^ 63) mod 2 ^ 64 - 2 ^ 63"

definition Unix :: "int \<Rightarrow> time" where
  \<comment> \<open>\<open>time.Unix(sec, 0)\<close>\<close>
  "Unix sec = (int64 (sec + unixToInternal) - unixToInternal) * Second"

definition Add :: "time \<Rightarrow> duration \<Rightarrow> time" where
  "Add t d = t + d"

definition Before :: "time \<Rightarrow> time \<Rightarrow> bool" where
  "Before t u = (t < u)"

definition After :: "time \<Rightarrow> time \<Rightarrow> bool" where
  "After t u = (t > u)"

subsection \<open>strconv.ParseInt(s, 10, 64)\<close>

text \<open>
  The standard library's parser, in base 10 and for 64 bits: an optional sign, then at
  least one digit and nothing but digits; the value must fit a signed 64-bit integer.
  The caller only tests whether the error is nil, so a syntax error and a range error
  are one value, \<open>None\<close>.
\<close>

definition maxUint64 :: nat where
  "maxUint64 = 2 ^ 64 - 1"

definition digit :: "char \<Rightarrow> nat option" where
  "digit c = (let n = (of_char c :: nat) in if 48 \<le> n \<and> n \<le> 57 then Some (n - 48) else None)"

fun ParseUint_loop :: "string \<Rightarrow> nat \<Rightarrow> nat option" where
  "ParseUint_loop [] n = Some n"
| "ParseUint_loop (c # cs) n =
     (case digit c of
        None \<Rightarrow> None
      | Some d \<Rightarrow> if n * 10 + d > maxUint64 then None else ParseUint_loop cs (n * 10 + d))"

definition ParseUint :: "string \<Rightarrow> nat option" where
  "ParseUint s = (if s = [] then None else ParseUint_loop s 0)"

definition ParseInt :: "string \<Rightarrow> int option" where
  "ParseInt s =
     (case s of
        [] \<Rightarrow> None
      | c # cs \<Rightarrow>
          (let neg = (c = CHR ''-'');
               s' = (if c = CHR ''+'' \<or> c = CHR ''-'' then cs else s)
           in case ParseUint s' of
                None \<Rightarrow> None
              | Some un \<Rightarrow>
                  if \<not> neg \<and> un \<ge> 2 ^ 63 then None
                  else if neg \<and> un > 2 ^ 63 then None
                  else Some (if neg then - int un else int un)))"

subsection \<open>Membership query\<close>

text \<open>
  A panic of the Go runtime is a value: \<open>ParsePanic\<close> is the \<open>panic(err)\<close> of
  \<open>Members\<close>, \<open>IndexOutOfRange\<close> the runtime's panic on \<open>values.Val()[i]\<close> when the
  reply holds fewer than \<open>i + 1\<close> values, \<open>CloseOfClosedChannel\<close> the runtime's
  panic on closing a channel twice.
\<close>

datatype panic = ParsePanic | IndexOutOfRange | CloseOfClosedChannel

type_synonym error = "string option"

text \<open>
  The loop of \<open>Members\<close> over \<open>members\<close>, at index \<open>i\<close>, with the peers appended so
  far. \<open>vals\<close> is \<open>values.Val()\<close>: a nil entry is \<open>None\<close>.
\<close>

fun Members_loop ::
  "time \<Rightarrow> duration \<Rightarrow> string option list \<Rightarrow> nat \<Rightarrow> string list \<Rightarrow> string list
     \<Rightarrow> panic + string list" where
  "Members_loop now hbt vals i [] peers = Inr peers"
| "Members_loop now hbt vals i (peer # rest) peers =
     (if i \<ge> length vals then Inl IndexOutOfRange
      else case vals ! i of
        None \<Rightarrow> Members_loop now hbt vals (i + 1) rest peers
      | Some val \<Rightarrow>
          (case ParseInt val of
             None \<Rightarrow> Inl ParsePanic
           | Some ts \<Rightarrow>
               if Before (Unix ts) (Add now (- hbt))
               then Members_loop now hbt vals (i + 1) rest peers
               else Members_loop now hbt vals (i + 1) rest (peers @ [peer])))"

subsection \<open>The peer\<close>

text \<open>
  What the peer has done to the outside: a \<open>PUBLISH\<close> sent to the broker (whether or
  not the broker accepted it), a call of a registered state's \<open>Merge\<close>, a
  \<open>time.Sleep\<close>, the closing of the readiness channel.
\<close>

datatype effect =
    Published string string
  | Merged string string
  | Slept duration
  | ClosedReady

text \<open>
  The fields of \<open>redisPeer\<close>. The registry \<open>states\<close> is a Go map: an association
  list with one entry per key, whose order stands for the (unspecified) order in which
  a \<open>range\<close> visits the map. A channel of \<open>struct{}\<close> that is only ever closed is
  the flag "closed". Each counter vector is a function of its label; the source's
  counters hold a \<open>float64\<close> that only ever grows by one or by a length, so that a
  natural number stands for it. The Redis client,
  the subscriptions and the logger are outside the model; \<open>effects\<close> is not a field
  of the source but the record of what the peer did.
\<close>

record 's redisPeer =
  name :: string
  prefix :: string
  states :: "(string \<times> 's) list"
  subs :: "string list"
  heartbeatInterval :: duration
  heartbeatTimeout :: duration
  readyc :: bool
  shutdownc :: bool
  pushPullInterval :: duration
  messagesReceived :: "string \<Rightarrow> nat"
  messagesReceivedSize :: "string \<Rightarrow> nat"
  messagesSent :: "string \<Rightarrow> nat"
  messagesSentSize :: "string \<Rightarrow> nat"
  position :: int
  positionFetchedAt :: time
  positionValidFor :: duration
  effects :: "effect list"

definition peerPattern :: string where
  "peerPattern = ''*''"

definition fullState :: string where
  "fullState = ''full_state''"

definition fullStateChannel :: string where
  "fullStateChannel = fullState"

definition fullStateChannelReq :: string where
  "fullStateChannelReq = fullStateChannel @ '':request''"

definition update :: string where
  "update = ''update''"

record redisConfig =
  cfg_name :: string
  cfg_prefix :: string

text \<open>
  The constructor, after a successful \<open>PING\<close> (on a failed one it returns the error
  and no peer). \<open>uuid\<close> is the text of the fresh UUID and \<open>zero\<close> the zero value of
  \<open>time.Time\<close>; the address and credentials of the configuration only reach the
  Redis client.
\<close>

definition newRedisPeer :: "redisConfig \<Rightarrow> string \<Rightarrow> time \<Rightarrow> duration \<Rightarrow> 's redisPeer" where
  "newRedisPeer cfg uuid zero ppi =
     \<lparr> name = (if cfg_name cfg \<noteq> [] then cfg_name cfg else ''peer-'' @ uuid),
       prefix = (if cfg_prefix cfg \<noteq> [] \<and> last (cfg_prefix cfg) \<noteq> CHR '':''
                 then cfg_prefix cfg @ '':'' else cfg_prefix cfg),
       states = [],
       subs = [fullStateChannel, fullStateChannelReq],
       heartbeatInterval = Second * 5,
       heartbeatTimeout = Minute,
       readyc = False,
       shutdownc = False,
       pushPullInterval = ppi,
       messagesReceived = (\<lambda>_. 0),
       messagesReceivedSize = (\<lambda>_. 0),
       messagesSent = (\<lambda>_. 0),
       messagesSentSize = (\<lambda>_. 0),
       position = 0,
       positionFetchedAt = zero,
       positionValidFor = Minute,
       effects = [] \<rparr>"

definition withPrefix :: "'s redisPeer \<Rightarrow> string \<Rightarrow> string" where
  "withPrefix p str = prefix p @ str"

text \<open>
  \<open>Members\<close>. \<open>scan\<close> is the reply to \<open>SCAN 0 MATCH <prefix>* COUNT 100\<close> (an error
  or the keys), \<open>vals\<close> is \<open>values.Val()\<close> of the \<open>MGET\<close> (after a failed \<open>MGET\<close>
  the method goes on with whatever \<open>Val()\<close> holds), \<open>now\<close> the clock.
\<close>

definition Members ::
  "'s redisPeer \<Rightarrow> error + string list \<Rightarrow> string option list \<Rightarrow> time \<Rightarrow> panic + string list" where
  "Members p scan vals now =
     (case scan of
        Inl err \<Rightarrow> Inr []
      | Inr members \<Rightarrow>
          if length members = 0 then Inr []
          else (case Members_loop now (heartbeatTimeout p) vals 0 members [] of
                  Inl pn \<Rightarrow> Inl pn
                | Inr peers \<Rightarrow> Inr (sort peers)))"

subsection \<open>Position\<close>

text \<open>
  The linear scan of \<open>Position\<close> over the members, at index \<open>i\<close>; it returns the
  position and the peer with its cache.
\<close>

fun Position_scan :: "'s redisPeer \<Rightarrow> time \<Rightarrow> nat \<Rightarrow> string list \<Rightarrow> int \<times> 's redisPeer" where
  "Position_scan p now i [] = (0, p)"
| "Position_scan p now i (peer # rest) =
     (if peer = name p
      then (int i, p\<lparr>position := int i, positionFetchedAt := now\<rparr>)
      else Position_scan p now (i + 1) rest)"

definition Position ::
  "'s redisPeer \<Rightarrow> error + string list \<Rightarrow> string option list \<Rightarrow> time
     \<Rightarrow> panic + int \<times> 's redisPeer" where
  "Position p scan vals now =
     (case Members p scan vals now of
        Inl pn \<Rightarrow> Inl pn
      | Inr members \<Rightarrow>
          if length members = 0 \<and> After (positionFetchedAt p) (Add now (- positionValidFor p))
          then Inr (position p, p)
          else Inr (Position_scan p now 0 members))"

subsection \<open>Registered states and the wire format\<close>

text \<open>
  \<open>cluster.State\<close> is an interface of the upstream alertmanager: a state object of type
  \<open>'s\<close> is merged with remote bytes (the object changes and an error may come back)
  and marshalled (bytes and an error come back together, as Go returns them). The two
  methods are parameters of the model.
\<close>

record 's State =
  Merge :: "'s \<Rightarrow> string \<Rightarrow> error \<times> 's"
  MarshalBinary :: "'s \<Rightarrow> string \<times> error"

text \<open>The two messages of \<open>clusterpb\<close>.\<close>

datatype Part = Part (Key: string) (Data: string)

datatype FullState = FullState (Parts: "Part list")

text \<open>
  \<open>proto.Marshal\<close> and \<open>proto.Unmarshal\<close> at the two message types are parameters too:
  marshalling returns bytes and an error, unmarshalling a message or, on an error,
  nothing.
\<close>

record proto =
  Marshal_Part :: "Part \<Rightarrow> string \<times> error"
  Unmarshal_Part :: "string \<Rightarrow> Part option"
  Marshal_FullState :: "FullState \<Rightarrow> string \<times> error"
  Unmarshal_FullState :: "string \<Rightarrow> FullState option"

subsection \<open>State registration and the delta channel\<close>

record RedisChannel =
  channel :: string
  msgType :: string

text \<open>
  \<open>AddState\<close> stores the state, subscribes to the prefixed key (the per-key receive
  loop it starts is \<open>receiveLoop\<close> below) and returns the channel handle; the handle's
  pointer to the peer is the peer argument of \<open>Broadcast\<close>.
\<close>

definition AddState :: "'s redisPeer \<Rightarrow> string \<Rightarrow> 's \<Rightarrow> 's redisPeer \<times> RedisChannel" where
  "AddState p key state =
     (p\<lparr>states := AList.update key state (states p), subs := List.insert key (subs p)\<rparr>,
      \<lparr>channel = withPrefix p key, msgType = update\<rparr>)"

text \<open>\<open>pub_err\<close> is the error of the \<open>PUBLISH\<close>.\<close>

definition Broadcast :: "proto \<Rightarrow> RedisChannel \<Rightarrow> string \<Rightarrow> error \<Rightarrow> 's redisPeer \<Rightarrow> 's redisPeer" where
  "Broadcast pb c b pub_err p =
     (case Marshal_Part pb (Part (channel c) b) of
        (b', Some err) \<Rightarrow> p
      | (b', None) \<Rightarrow>
          (let p1 = p\<lparr>effects := effects p @ [Published (channel c) b']\<rparr>
           in if pub_err \<noteq> None then p1
              else p1\<lparr>messagesSent := (messagesSent p1)(msgType c := messagesSent p1 (msgType c) + 1),
                      messagesSentSize :=
                        (messagesSentSize p1)(msgType c := messagesSentSize p1 (msgType c) + length b')\<rparr>))"

subsection \<open>Receive loops\<close>

text \<open>
  What \<open>ReceiveMessage\<close> returns: a \<open>net.OpError\<close>, another error, or a message with
  its payload.
\<close>

datatype received = NetOpError | OtherError | Message string

text \<open>
  One turn of a receive loop starts with a \<open>select\<close> on the shutdown channel, which
  another goroutine closes: the input of a turn is either that the channel was seen
  closed or what \<open>ReceiveMessage\<close> returned. A loop is run on a finite list of such
  inputs and returns the peer reached when the loop has returned or the inputs are
  used up.
\<close>

datatype loop_input = ShutdownClosed | Receive received

definition receiveLoop_body :: "'s State \<Rightarrow> proto \<Rightarrow> string \<Rightarrow> received \<Rightarrow> 's redisPeer \<Rightarrow> 's redisPeer" where
  "receiveLoop_body st pb nm r p =
     (case r of
        NetOpError \<Rightarrow> p\<lparr>effects := effects p @ [Slept networkRetryInterval]\<rparr>
      | OtherError \<Rightarrow> p
      | Message payload \<Rightarrow>
          (let p1 = p\<lparr>messagesReceived := (messagesReceived p)(update := messagesReceived p update + 1),
                       messagesReceivedSize :=
                         (messagesReceivedSize p)(update := messagesReceivedSize p update + length payload)\<rparr>
           in case Unmarshal_Part pb payload of
                None \<Rightarrow> p1
              | Some part \<Rightarrow>
                  (case map_of (states p1) (Key part) of
                     None \<Rightarrow> p1
                   | Some s \<Rightarrow>
                       (case Merge st s (Data part) of
                          (err, s') \<Rightarrow>
                            p1\<lparr>states := AList.update (Key part) s' (states p1),
                               effects := effects p1 @ [Merged (Key part) (Data part)]\<rparr>))))"

fun receiveLoop :: "'s State \<Rightarrow> proto \<Rightarrow> string \<Rightarrow> loop_input list \<Rightarrow> 's redisPeer \<Rightarrow> 's redisPeer" where
  "receiveLoop st pb nm [] p = p"
| "receiveLoop st pb nm (ShutdownClosed # ins) p = p"
| "receiveLoop st pb nm (Receive r # ins) p = receiveLoop st pb nm ins (receiveLoop_body st pb nm r p)"

subsection \<open>Full-state sync\<close>

fun LocalState_loop :: "'s State \<Rightarrow> (string \<times> 's) list \<Rightarrow> Part list \<Rightarrow> Part list" where
  "LocalState_loop st [] parts = parts"
| "LocalState_loop st ((key, s) # rest) parts =
     (case MarshalBinary st s of
        (b, err) \<Rightarrow> LocalState_loop st rest (parts @ [Part key b]))"

definition LocalState_all :: "'s State \<Rightarrow> 's redisPeer \<Rightarrow> FullState" where
  \<comment> \<open>the value of \<open>all\<close> when the loop of \<open>LocalState\<close> is over\<close>
  "LocalState_all st p = FullState (LocalState_loop st (states p) [])"

definition LocalState :: "'s State \<Rightarrow> proto \<Rightarrow> 's redisPeer \<Rightarrow> string \<times> 's redisPeer" where
  "LocalState st pb p =
     (case Marshal_FullState pb (LocalState_all st p) of
        (b, err) \<Rightarrow>
          (b, p\<lparr>messagesSent := (messagesSent p)(fullState := messagesSent p fullState + 1),
                messagesSentSize :=
                  (messagesSentSize p)(fullState := messagesSentSize p fullState + length b)\<rparr>))"

definition fullStateSyncPublish :: "'s State \<Rightarrow> proto \<Rightarrow> 's redisPeer \<Rightarrow> 's redisPeer" where
  "fullStateSyncPublish st pb p =
     (case LocalState st pb p of
        (b, p1) \<Rightarrow> p1\<lparr>effects := effects p1 @ [Published (withPrefix p1 fullStateChannel) b]\<rparr>)"

definition requestFullState :: "'s redisPeer \<Rightarrow> 's redisPeer" where
  "requestFullState p = p\<lparr>effects := effects p @ [Published (withPrefix p fullStateChannelReq) (name p)]\<rparr>"

definition fullStateReqReceiveLoop_body :: "'s State \<Rightarrow> proto \<Rightarrow> received \<Rightarrow> 's redisPeer \<Rightarrow> 's redisPeer" where
  "fullStateReqReceiveLoop_body st pb r p =
     (case r of
        NetOpError \<Rightarrow> p\<lparr>effects := effects p @ [Slept networkRetryInterval]\<rparr>
      | OtherError \<Rightarrow> p
      | Message payload \<Rightarrow> if payload = name p then p else fullStateSyncPublish st pb p)"

fun fullStateReqReceiveLoop :: "'s State \<Rightarrow> proto \<Rightarrow> loop_input list \<Rightarrow> 's redisPeer \<Rightarrow> 's redisPeer" where
  "fullStateReqReceiveLoop st pb [] p = p"
| "fullStateReqReceiveLoop st pb (ShutdownClosed # ins) p = p"
| "fullStateReqReceiveLoop st pb (Receive r # ins) p =
     fullStateReqReceiveLoop st pb ins (fullStateReqReceiveLoop_body st pb r p)"

text \<open>
  The inline function of the full-state receive loop, over \<open>fs.Parts\<close>. It returns
  whether it left by the \<open>return\<close> after a failed merge, and the peer.
\<close>

fun mergeParts :: "'s State \<Rightarrow> Part list \<Rightarrow> 's redisPeer \<Rightarrow> bool \<times> 's redisPeer" where
  "mergeParts st [] p = (False, p)"
| "mergeParts st (part # parts) p =
     (case map_of (states p) (Key part) of
        None \<Rightarrow> mergeParts st parts p
      | Some s \<Rightarrow>
          (case Merge st s (Data part) of
             (err, s') \<Rightarrow>
               (let p1 = p\<lparr>states := AList.update (Key part) s' (states p),
                            effects := effects p @ [Merged (Key part) (Data part)]\<rparr>
                in if err \<noteq> None then (True, p1) else mergeParts st parts p1)))"

definition fullStateSyncReceiveLoop_body :: "'s State \<Rightarrow> proto \<Rightarrow> received \<Rightarrow> 's redisPeer \<Rightarrow> 's redisPeer" where
  "fullStateSyncReceiveLoop_body st pb r p =
     (case r of
        NetOpError \<Rightarrow> p\<lparr>effects := effects p @ [Slept networkRetryInterval]\<rparr>
      | OtherError \<Rightarrow> p
      | Message payload \<Rightarrow>
          (let p1 = p\<lparr>messagesReceived := (messagesReceived p)(fullState := messagesReceived p fullState + 1),
                       messagesReceivedSize :=
                         (messagesReceivedSize p)(fullState := messagesReceivedSize p fullState + length payload)\<rparr>
           in case Unmarshal_FullState pb payload of
                None \<Rightarrow> p1
              | Some fs \<Rightarrow> snd (mergeParts st (Parts fs) p1)))"

fun fullStateSyncReceiveLoop :: "'s State \<Rightarrow> proto \<Rightarrow> loop_input list \<Rightarrow> 's redisPeer \<Rightarrow> 's redisPeer" where
  "fullStateSyncReceiveLoop st pb [] p = p"
| "fullStateSyncReceiveLoop st pb (ShutdownClosed # ins) p = p"
| "fullStateSyncReceiveLoop st pb (Receive r # ins) p =
     fullStateSyncReceiveLoop st pb ins (fullStateSyncReceiveLoop_body st pb r p)"

subsection \<open>Settle\<close>

text \<open>
  One turn of \<open>Settle\<close> waits in a \<open>select\<close>: either the caller's context is done,
  or the timer fires and \<open>Members\<close> is called, on the broker's replies and the clock
  of that moment. \<open>Settle\<close> is run on a list of such events; \<open>None\<close> means that it is
  still waiting when the events are used up.
\<close>

datatype settle_event = CtxDone | TimerFired "error + string list" "string option list" time

datatype settle_exit = Cancelled | Settled

definition NumOkayRequired :: nat where
  "NumOkayRequired = 3"

fun Settle_loop ::
  "'s redisPeer \<Rightarrow> nat \<Rightarrow> nat \<Rightarrow> nat \<Rightarrow> settle_event list \<Rightarrow> (panic + settle_exit) option" where
  "Settle_loop p nPeers nOkay totalPolls [] = None"
| "Settle_loop p nPeers nOkay totalPolls (CtxDone # evs) = Some (Inr Cancelled)"
| "Settle_loop p nPeers nOkay totalPolls (TimerFired scan vals now # evs) =
     (case Members p scan vals now of
        Inl pn \<Rightarrow> Some (Inl pn)
      | Inr members \<Rightarrow>
          (let n = length members
           in if nOkay \<ge> NumOkayRequired then Some (Inr Settled)
              else if n = nPeers then Settle_loop p n (nOkay + 1) (totalPolls + 1) evs
              else Settle_loop p n 0 (totalPolls + 1) evs))"

definition close_readyc :: "'s redisPeer \<Rightarrow> panic + 's redisPeer" where
  "close_readyc p =
     (if readyc p then Inl CloseOfClosedChannel
      else Inr (p\<lparr>readyc := True, effects := effects p @ [ClosedReady]\<rparr>))"

definition Settle :: "'s redisPeer \<Rightarrow> settle_event list \<Rightarrow> (panic + settle_exit \<times> 's redisPeer) option" where
  "Settle p evs =
     (case Settle_loop p 0 0 0 evs of
        None \<Rightarrow> None
      | Some (Inl pn) \<Rightarrow> Some (Inl pn)
      | Some (Inr Cancelled) \<Rightarrow>
          (case close_readyc p of Inl pn \<Rightarrow> Some (Inl pn) | Inr p' \<Rightarrow> Some (Inr (Cancelled, p')))
      | Some (Inr Settled) \<Rightarrow>
          (case close_readyc (requestFullState p) of
             Inl pn \<Rightarrow> Some (Inl pn)
           | Inr p' \<Rightarrow> Some (Inr (Settled, p'))))"

subsection \<open>Specification-side notions\<close>

text \<open>
  The membership rule in the specification's words: a value is live at \<open>now\<close> when it
  is present, parses as decimal integer seconds, and that time is not earlier than \<open>now\<close>
  minus the heartbeat timeout.
\<close>

definition live :: "time \<Rightarrow> duration \<Rightarrow> string option \<Rightarrow> bool" where
  "live now hbt v =
     (case v of
        None \<Rightarrow> False
      | Some s \<Rightarrow> (case ParseInt s of None \<Rightarrow> False | Some ts \<Rightarrow> now - hbt \<le> ts * Second))"

text \<open>
  A decimal-integer string, read independently of the parser: an optional sign followed
  by one or more of the digits 0 to 9; its value; and whether that value fits a signed
  64-bit integer.
\<close>

definition is_digit :: "char \<Rightarrow> bool" where
  "is_digit c = (CHR ''0'' \<le> c \<and> c \<le> CHR ''9'')"

definition digits_value :: "string \<Rightarrow> nat \<Rightarrow> nat" where
  "digits_value ds n = foldl (\<lambda>n d. n * 10 + (of_char d - 48)) n ds"

definition decimal_integer :: "string \<Rightarrow> bool" where
  "decimal_integer s =
     (case s of
        [] \<Rightarrow> False
      | c # cs \<Rightarrow>
          (let ds = (if c = CHR ''+'' \<or> c = CHR ''-'' then cs else s)
           in ds \<noteq> [] \<and> list_all is_digit ds))"

definition decimal_value :: "string \<Rightarrow> int" where
  "decimal_value s =
     (case s of
        [] \<Rightarrow> 0
      | c # cs \<Rightarrow>
          if c = CHR ''-'' then - int (digits_value cs 0)
          else if c = CHR ''+'' then int (digits_value cs 0)
          else int (digits_value s 0))"

definition int64_text :: "string \<Rightarrow> bool" where
  "int64_text s = (decimal_integer s \<and> - (2 ^ 63) \<le> decimal_value s \<and> decimal_value s < 2 ^ 63)"

text \<open>
  The decimal text of a number of seconds that \<open>time.Unix\<close> turns into the time so
  many seconds after the epoch: a signed 64-bit integer that is still one when the
  seconds from year 1 to 1970 are added.
\<close>

definition unix_seconds_text :: "string \<Rightarrow> bool" where
  "unix_seconds_text s = (int64_text s \<and> decimal_value s + unixToInternal < 2 ^ 63)"

text \<open>
  The payloads of the messages that a receive loop is handed before it returns, in
  order: the broker's successful deliveries.
\<close>

fun delivered :: "loop_input list \<Rightarrow> string list" where
  "delivered [] = []"
| "delivered (ShutdownClosed # ins) = []"
| "delivered (Receive (Message payload) # ins) = payload # delivered ins"
| "delivered (Receive r # ins) = delivered ins"

fun is_Published :: "effect \<Rightarrow> bool" where
  "is_Published (Published ch payload) = True"
| "is_Published e = False"

text \<open>
  What one event of \<open>Settle\<close> lets it observe: the member count of a poll, or nothing
  (the context is done, or \<open>Members\<close> panics).
\<close>

definition observe :: "'s redisPeer \<Rightarrow> settle_event \<Rightarrow> nat option" where
  "observe p ev =
     (case ev of
        CtxDone \<Rightarrow> None
      | TimerFired scan vals now \<Rightarrow>
          (case Members p scan vals now of Inl pn \<Rightarrow> None | Inr members \<Rightarrow> Some (length members)))"

text \<open>
  The counter of consecutive unchanged polls, read off the member counts that the polls
  so far have observed, in order: the number of counts at the end of the list that each
  equal the count before them, the count before the first poll being 0.
\<close>

definition unchanged :: "nat list \<Rightarrow> nat" where
  "unchanged obs = length (takeWhile (\<lambda>(n, before). n = before) (rev (zip obs (0 # obs))))"

text \<open>
  A part whose key names a state of the registry, and the record of its merge.
\<close>

definition registered :: "'s redisPeer \<Rightarrow> Part \<Rightarrow> bool" where
  "registered p part = (map_of (states p) (Key part) \<noteq> None)"

definition merged :: "Part \<Rightarrow> effect" where
  "merged part = Merged (Key part) (Data part)"

subsection \<open>Concrete inputs\<close>

text \<open>
  A peer as the constructor makes it, named \<open>a\<close>, configured with the prefix \<open>am\<close>
  (normalized to \<open>am:\<close>); its states are lists of the payloads merged so far.
\<close>

definition example_peer :: "string list redisPeer" where
  "example_peer =
     newRedisPeer \<lparr>cfg_name = ''a'', cfg_prefix = ''am''\<rparr> ''0000'' (Unix (- 62135596800)) Minute"

text \<open>A second peer, named \<open>b\<close>, configured without a prefix.\<close>

definition bare_peer :: "string list redisPeer" where
  "bare_peer =
     newRedisPeer \<lparr>cfg_name = ''b'', cfg_prefix = ''''\<rparr> ''0000'' (Unix (- 62135596800)) Minute"

text \<open>
  A third peer, named \<open>c\<close>, under the same prefix \<open>am:\<close> as the first, and the
  first peer after it has registered two states: \<open>nfl\<close>, which has merged the payload
  \<open>x\<close>, and \<open>sil\<close>, which has merged nothing.
\<close>

definition other_peer :: "string list redisPeer" where
  "other_peer =
     newRedisPeer \<lparr>cfg_name = ''c'', cfg_prefix = ''am:''\<rparr> ''0000'' (Unix (- 62135596800)) Minute"

definition registered_peer :: "string list redisPeer" where
  "registered_peer = fst (AddState (fst (AddState example_peer ''nfl'' [''x''])) ''sil'' [])"

text \<open>
  State objects to run the peer on: a state is the list of the payloads merged so far;
  merging the payload \<open>bad\<close> fails, and a state that has merged nothing fails to
  marshal.
\<close>

definition example_State :: "string list State" where
  "example_State =
     \<lparr> Merge = (\<lambda>s b. if b = ''bad'' then (Some ''merge failed'', s) else (None, s @ [b])),
       MarshalBinary = (\<lambda>s. if s = [] then ([], Some ''nothing to marshal'') else (concat s, None)) \<rparr>"

text \<open>
  A codec to run the peer on (the real wire format is protocol buffers, fixed outside
  the repository): a part travels as its key, an equals sign and its data, a full state
  as its parts, each closed by a semicolon.
\<close>

fun fields :: "char \<Rightarrow> string \<Rightarrow> string \<Rightarrow> string list" where
  "fields sep [] acc = []"
| "fields sep (c # cs) acc = (if c = sep then acc # fields sep cs [] else fields sep cs (acc @ [c]))"

definition encode_Part :: "Part \<Rightarrow> string" where
  "encode_Part part = Key part @ ''='' @ Data part"

definition decode_Part :: "string \<Rightarrow> Part option" where
  "decode_Part w =
     (if CHR ''='' \<in> set w
      then Some (Part (takeWhile (\<lambda>c. c \<noteq> CHR ''='') w) (tl (dropWhile (\<lambda>c. c \<noteq> CHR ''='') w)))
      else None)"

definition example_proto :: proto where
  "example_proto =
     \<lparr> Marshal_Part = (\<lambda>part. (encode_Part part, None)),
       Unmarshal_Part = decode_Part,
       Marshal_FullState = (\<lambda>fs. (concat (map (\<lambda>part. encode_Part part @ '';'') (Parts fs)), None)),
       Unmarshal_FullState =
         (\<lambda>w. if list_all (\<lambda>f. decode_Part f \<noteq> None) (fields CHR '';'' w [])
              then Some (FullState (map (\<lambda>f. the (decode_Part f)) (fields CHR '';'' w [])))
              else None) \<rparr>"

section \<open>Lemmas\<close>

subsection \<open>Time\<close>

lemma unixToInternal_eq: "unixToInternal = 62135596800"
  by (simp add: unixToInternal_def)

lemma int64_in_range: "- (2 ^ 63) \<le> x \<Longrightarrow> x < 2 ^ 63 \<Longrightarrow> int64 x = x"
  by (simp add: int64_def)

lemma Unix_in_range:
  "- (2 ^ 63) \<le> sec + unixToInternal \<Longrightarrow> sec + unixToInternal < 2 ^ 63 \<Longrightarrow> Unix sec = sec * Second"
  by (simp add: Unix_def int64_in_range)

lemma Unix_examples:
  "Unix 150 = 150000000000"
  "Unix 100 = 100000000000"
  "Unix 95 = 95000000000"
  "Unix 10 = 10000000000"
  "Unix (- 62135596800) = - 62135596800000000000"
  "Unix 9223372036854775807 = - 9223372036854775809000000000"
  by (simp_all add: Unix_def int64_def unixToInternal_eq Second_def)

subsection \<open>The parser\<close>

lemma digit_is_digit: "digit c = (if is_digit c then Some (of_char c - 48) else None)"
  by (simp add: digit_def is_digit_def less_eq_char_def Let_def)

lemma digits_value_mono: "n \<le> digits_value ds n"
proof (induction ds arbitrary: n)
  case Nil
  then show ?case by (simp add: digits_value_def)
next
  case (Cons d ds)
  have "n \<le> n * 10 + (of_char d - 48)" by simp
  also have "\<dots> \<le> digits_value ds (n * 10 + (of_char d - 48))" by (rule Cons.IH)
  finally show ?case by (simp add: digits_value_def)
qed

lemma ParseUint_loop_eq:
  "n \<le> maxUint64 \<Longrightarrow> ParseUint_loop ds n =
     (if list_all is_digit ds \<and> digits_value ds n \<le> maxUint64 then Some (digits_value ds n) else None)"
proof (induction ds arbitrary: n)
  case Nil
  then show ?case by (simp add: digits_value_def)
next
  case (Cons d ds)
  have step: "digits_value (d # ds) n = digits_value ds (n * 10 + (of_char d - 48))"
    by (simp add: digits_value_def)
  show ?case
  proof (cases "is_digit d")
    case False
    then show ?thesis by (simp add: digit_is_digit)
  next
    case True
    show ?thesis
    proof (cases "n * 10 + (of_char d - 48) > maxUint64")
      case over: True
      have "n * 10 + (of_char d - 48) \<le> digits_value (d # ds) n"
        unfolding step by (rule digits_value_mono)
      with over have "\<not> digits_value (d # ds) n \<le> maxUint64" by linarith
      with over True show ?thesis by (simp add: digit_is_digit)
    next
      case False
      with True show ?thesis by (simp add: digit_is_digit Cons.IH step)
    qed
  qed
qed

lemma ParseUint_eq:
  "ParseUint ds =
     (if ds \<noteq> [] \<and> list_all is_digit ds \<and> digits_value ds 0 \<le> maxUint64
      then Some (digits_value ds 0) else None)"
  unfolding ParseUint_def using ParseUint_loop_eq [of 0 ds] by simp

lemma int_lt_pow63: "(int k < 2 ^ 63) = (k < 2 ^ 63)"
  by (metis of_nat_less_iff of_nat_numeral of_nat_power)

lemma int_le_pow63: "(- (2 ^ 63) \<le> - int k) = (k \<le> 2 ^ 63)"
  by (metis neg_le_iff_le of_nat_le_iff of_nat_numeral of_nat_power)

lemma le_pow63_maxUint64: "k \<le> 2 ^ 63 \<Longrightarrow> k \<le> maxUint64"
  by (simp add: maxUint64_def)

text \<open>The parser accepts exactly the decimal texts of the signed 64-bit integers.\<close>

lemma ParseInt_eq:
  "ParseInt s = (if int64_text s then Some (decimal_value s) else None)"
proof (cases s)
  case Nil
  then show ?thesis by (simp add: ParseInt_def decimal_integer_def int64_text_def)
next
  case (Cons c cs)
  consider (minus) "c = CHR ''-''" | (plus) "c = CHR ''+''" | (none) "c \<noteq> CHR ''-''" "c \<noteq> CHR ''+''"
    by blast
  then show ?thesis
  proof cases
    case minus
    have neg: "- int (digits_value cs 0) < 2 ^ 63"
      by (rule le_less_trans [of _ 0]) simp_all
    show ?thesis
      using Cons minus neg le_pow63_maxUint64 [of "digits_value cs 0"]
      by (auto simp add: ParseInt_def ParseUint_eq decimal_integer_def decimal_value_def
          int64_text_def int_le_pow63 not_le not_less)
  next
    case plus
    have pos: "- (2 ^ 63) \<le> int (digits_value cs 0)"
      by (rule order_trans [of _ 0]) simp_all
    show ?thesis
      using Cons plus pos le_pow63_maxUint64 [of "digits_value cs 0"]
      by (auto simp add: ParseInt_def ParseUint_eq decimal_integer_def decimal_value_def
          int64_text_def int_lt_pow63 not_le not_less)
  next
    case none
    have pos: "- (2 ^ 63) \<le> int (digits_value s 0)"
      by (rule order_trans [of _ 0]) simp_all
    show ?thesis
      using Cons none pos le_pow63_maxUint64 [of "digits_value s 0"]
      by (auto simp add: ParseInt_def ParseUint_eq decimal_integer_def decimal_value_def
          int64_text_def int_lt_pow63 not_le not_less Let_def)
  qed
qed

lemma ParseInt_examples:
  "ParseInt ''100'' = Some 100"
  "ParseInt ''95'' = Some 95"
  "ParseInt ''10'' = Some 10"
  "ParseInt ''soon'' = None"
  "ParseInt ''99999999999999999999'' = None"
  "ParseInt ''9223372036854775807'' = Some 9223372036854775807"
  by (simp_all add: ParseInt_def ParseUint_def digit_def maxUint64_def)

lemma int64_text_examples:
  "int64_text ''100''" "int64_text ''95''" "\<not> int64_text ''soon''"
  using ParseInt_eq [of "''100''"] ParseInt_eq [of "''95''"] ParseInt_eq [of "''soon''"]
  by (simp_all add: ParseInt_examples split: if_splits)

lemma unix_seconds_text_examples:
  "unix_seconds_text ''100''" "unix_seconds_text ''95''" "unix_seconds_text ''10''"
  using ParseInt_eq [of "''100''"] ParseInt_eq [of "''95''"] ParseInt_eq [of "''10''"]
  by (simp_all add: ParseInt_examples unix_seconds_text_def unixToInternal_eq split: if_splits)

subsection \<open>The example peer\<close>

lemma example_peer_fields:
  "name example_peer = ''a''"
  "prefix example_peer = ''am:''"
  "states example_peer = []"
  "heartbeatTimeout example_peer = 60000000000"
  "positionValidFor example_peer = 60000000000"
  "position example_peer = 0"
  "positionFetchedAt example_peer = - 62135596800000000000"
  "readyc example_peer = False"
  "effects example_peer = []"
  by (simp_all add: example_peer_def newRedisPeer_def Minute_def Second_def Unix_examples)

subsection \<open>The loop of Members\<close>

lemma unix_seconds_text_ParseInt:
  "unix_seconds_text v \<Longrightarrow> ParseInt v = Some (decimal_value v) \<and> Unix (decimal_value v) = decimal_value v * Second"
proof -
  assume a: "unix_seconds_text v"
  then have t: "int64_text v" and hi: "decimal_value v + unixToInternal < 2 ^ 63"
    by (simp_all add: unix_seconds_text_def)
  from t have "- (2 ^ 63) \<le> decimal_value v" by (simp add: int64_text_def)
  then have lo: "- (2 ^ 63) \<le> decimal_value v + unixToInternal"
    by (simp add: unixToInternal_eq)
  from t have "ParseInt v = Some (decimal_value v)" by (simp add: ParseInt_eq)
  with lo hi show ?thesis by (simp add: Unix_in_range)
qed

text \<open>
  When the reply holds a value for every remaining key and every present value is the
  text of seconds that \<open>time.Unix\<close> represents, the loop appends the keys whose value
  is live, in the order of the scan.
\<close>

lemma Members_loop_filter:
  assumes "i + length rest \<le> length vals"
    and "\<forall>v. Some v \<in> set vals \<longrightarrow> unix_seconds_text v"
  shows "Members_loop now hbt vals i rest peers =
           Inr (peers @ map fst (filter (\<lambda>(key, v). live now hbt v) (zip rest (drop i vals))))"
  using assms
proof (induction rest arbitrary: i peers)
  case Nil
  then show ?case by simp
next
  case (Cons peer rest)
  from Cons.prems have i: "i < length vals" and le: "Suc i + length rest \<le> length vals"
    by simp_all
  have d: "drop i vals = vals ! i # drop (Suc i) vals"
    using i by (simp add: Cons_nth_drop_Suc)
  have ih: "\<And>ps. Members_loop now hbt vals (Suc i) rest ps =
              Inr (ps @ map fst (filter (\<lambda>(key, v). live now hbt v) (zip rest (drop (Suc i) vals))))"
    using Cons.IH [OF le Cons.prems(2)] by simp
  show ?case
  proof (cases "vals ! i")
    case None
    then show ?thesis using i d ih by (simp add: live_def)
  next
    case (Some val)
    then have "Some val \<in> set vals" using i by (metis nth_mem)
    then have "unix_seconds_text val" using Cons.prems(2) by simp
    then have ts: "ParseInt val = Some (decimal_value val)"
      and u: "Unix (decimal_value val) = decimal_value val * Second"
      by (simp_all add: unix_seconds_text_ParseInt)
    show ?thesis
      using i d ih Some ts u by (simp add: live_def Before_def Add_def)
  qed
qed

text \<open>
  When the reply holds a value for every remaining key and every present value parses,
  the loop ends without a panic.
\<close>

lemma Members_loop_returns:
  assumes "i + length rest \<le> length vals"
    and "\<forall>v. Some v \<in> set vals \<longrightarrow> ParseInt v \<noteq> None"
  shows "\<exists>ps. Members_loop now hbt vals i rest peers = Inr ps"
  using assms
proof (induction rest arbitrary: i peers)
  case Nil
  then show ?case by simp
next
  case (Cons peer rest)
  from Cons.prems have i: "i < length vals" and le: "Suc i + length rest \<le> length vals"
    by simp_all
  have ih: "\<And>ps. \<exists>qs. Members_loop now hbt vals (Suc i) rest ps = Inr qs"
    using Cons.IH [OF le Cons.prems(2)] by simp
  show ?case
  proof (cases "vals ! i")
    case None
    then show ?thesis using i ih by simp
  next
    case (Some val)
    then have "Some val \<in> set vals" using i by (metis nth_mem)
    then obtain ts where ts: "ParseInt val = Some ts" using Cons.prems(2) by auto
    show ?thesis
      using i ih Some ts by simp
  qed
qed

text \<open>A present value that does not parse, at an index the loop reaches, is a panic.\<close>

lemma Members_loop_panic:
  assumes "i \<le> j" "j < i + length rest" "j < length vals" "vals ! j = Some v" "ParseInt v = None"
  shows "Members_loop now hbt vals i rest peers = Inl ParsePanic"
  using assms
proof (induction rest arbitrary: i peers)
  case Nil
  then show ?case by simp
next
  case (Cons peer rest)
  show ?case
  proof (cases "i = j")
    case True
    then show ?thesis using Cons.prems by simp
  next
    case False
    then have "Suc i \<le> j" "j < Suc i + length rest" "i < length vals" using Cons.prems by simp_all
    then have ih: "\<And>ps. Members_loop now hbt vals (Suc i) rest ps = Inl ParsePanic"
      using Cons.IH Cons.prems by blast
    show ?thesis using ih \<open>i < length vals\<close> by (simp split: option.splits)
  qed
qed

text \<open>The loop only appends keys of the scan, each at most as often as the scan holds it.\<close>

lemma Members_loop_distinct:
  assumes "Members_loop now hbt vals i rest peers = Inr ps"
  shows "\<exists>ys. ps = peers @ ys \<and> set ys \<subseteq> set rest \<and> (distinct rest \<longrightarrow> distinct ys)"
  using assms
proof (induction rest arbitrary: i peers)
  case Nil
  then show ?case by simp
next
  case (Cons peer rest)
  from Cons.prems consider
      (skip) "Members_loop now hbt vals (Suc i) rest peers = Inr ps"
    | (keep) "Members_loop now hbt vals (Suc i) rest (peers @ [peer]) = Inr ps"
    by (auto split: if_splits option.splits)
  then show ?case
  proof cases
    case skip
    from Cons.IH [OF skip] show ?thesis by auto
  next
    case keep
    from Cons.IH [OF keep] obtain ys where
      "ps = (peers @ [peer]) @ ys" "set ys \<subseteq> set rest" "distinct rest \<longrightarrow> distinct ys" by blast
    then have "ps = peers @ (peer # ys) \<and> set (peer # ys) \<subseteq> set (peer # rest)
                 \<and> (distinct (peer # rest) \<longrightarrow> distinct (peer # ys))" by auto
    then show ?thesis by blast
  qed
qed

lemma bare_peer_fields:
  "name bare_peer = ''b''"
  "prefix bare_peer = ''''"
  "positionValidFor bare_peer = 60000000000"
  "heartbeatTimeout bare_peer = 60000000000"
  "position bare_peer = 0"
  "positionFetchedAt bare_peer = - 62135596800000000000"
  by (simp_all add: bare_peer_def newRedisPeer_def Minute_def Second_def Unix_examples)

subsection \<open>The scan of Position\<close>

lemma Position_scan_found:
  assumes "i < length ms" "ms ! i = name p" "\<forall>j<i. ms ! j \<noteq> name p"
  shows "Position_scan p now k ms = (int (k + i), p\<lparr>position := int (k + i), positionFetchedAt := now\<rparr>)"
  using assms
proof (induction ms arbitrary: i k)
  case Nil
  then show ?case by simp
next
  case (Cons m ms)
  show ?case
  proof (cases i)
    case 0
    with Cons.prems show ?thesis by simp
  next
    case (Suc i')
    with Cons.prems have "m \<noteq> name p" by auto
    moreover have "Position_scan p now (Suc k) ms =
        (int (Suc k + i'), p\<lparr>position := int (Suc k + i'), positionFetchedAt := now\<rparr>)"
      using Cons.prems Suc by (intro Cons.IH) auto
    ultimately show ?thesis using Suc by simp
  qed
qed

lemma Position_scan_absent: "name p \<notin> set ms \<Longrightarrow> Position_scan p now k ms = (0, p)"
  by (induction ms arbitrary: k) auto

subsection \<open>Counters and publishes of the receive loops\<close>

lemma receiveLoop_body_counters:
  "messagesReceived (receiveLoop_body st pb nm r p) update =
     messagesReceived p update + (case r of Message payload \<Rightarrow> 1 | _ \<Rightarrow> 0)"
  "messagesReceivedSize (receiveLoop_body st pb nm r p) update =
     messagesReceivedSize p update + (case r of Message payload \<Rightarrow> length payload | _ \<Rightarrow> 0)"
  by (simp_all add: receiveLoop_body_def Let_def split: received.splits option.splits prod.splits)

lemma receiveLoop_counters:
  "messagesReceived (receiveLoop st pb nm ins p) update =
     messagesReceived p update + length (delivered ins)
   \<and> messagesReceivedSize (receiveLoop st pb nm ins p) update =
     messagesReceivedSize p update + sum_list (map length (delivered ins))"
proof (induction ins arbitrary: p)
  case Nil
  then show ?case by simp
next
  case (Cons x ins)
  show ?case
  proof (cases x)
    case ShutdownClosed
    then show ?thesis by simp
  next
    case (Receive r)
    then show ?thesis
      by (cases r) (simp_all add: Cons.IH receiveLoop_body_counters)
  qed
qed

lemma fullStateSyncPublish_effects:
  "effects (fullStateSyncPublish st pb p) =
     effects p @ [Published (withPrefix p fullStateChannel) (fst (LocalState st pb p))]"
  "name (fullStateSyncPublish st pb p) = name p"
  by (simp_all add: fullStateSyncPublish_def LocalState_def withPrefix_def split: prod.splits)

lemma fullStateReq_body_name: "name (fullStateReqReceiveLoop_body st pb r p) = name p"
  by (cases r) (simp_all add: fullStateReqReceiveLoop_body_def fullStateSyncPublish_effects)

lemma fullStateReq_body_published:
  "length (filter is_Published (effects (fullStateReqReceiveLoop_body st pb r p))) =
     length (filter is_Published (effects p))
       + (case r of Message payload \<Rightarrow> if payload = name p then 0 else 1 | _ \<Rightarrow> 0)"
  by (cases r) (simp_all add: fullStateReqReceiveLoop_body_def fullStateSyncPublish_effects)

lemma fullStateReq_loop_published:
  "length (filter is_Published (effects (fullStateReqReceiveLoop st pb ins p))) =
     length (filter is_Published (effects p))
       + length (filter (\<lambda>payload. payload \<noteq> name p) (delivered ins))"
proof (induction ins arbitrary: p)
  case Nil
  then show ?case by simp
next
  case (Cons x ins)
  show ?case
  proof (cases x)
    case ShutdownClosed
    then show ?thesis by simp
  next
    case (Receive r)
    then show ?thesis
      by (cases r) (simp_all add: Cons.IH fullStateReq_body_name fullStateReq_body_published)
  qed
qed

subsection \<open>The loop of Settle\<close>

text \<open>
  A run of the loop that leaves by the settled path has consumed polls only, and their
  member counts end in three counts equal to the count before them, then one more poll;
  or, started with some polls already counted, in the polls still missing.
\<close>

lemma Settle_loop_settled:
  "Settle_loop p nP nO tp evs = Some (Inr Settled) \<Longrightarrow>
     \<exists>ticks rest obs. evs = ticks @ rest \<and> map (observe p) ticks = map Some obs \<and>
       ((\<exists>pre c x. obs = pre @ [c, c, c, x] \<and> last (nP # pre) = c)
        \<or> (\<exists>x. obs = replicate (3 - nO) nP @ [x]))"
proof (induction evs arbitrary: nP nO tp)
  case Nil
  then show ?case by simp
next
  case (Cons ev evs)
  show ?case
  proof (cases ev)
    case CtxDone
    with Cons.prems show ?thesis by simp
  next
    case (TimerFired scan vals now)
    with Cons.prems obtain members where m: "Members p scan vals now = Inr members"
      by (auto split: sum.splits)
    define n where "n = length members"
    have ob: "observe p ev = Some n"
      using TimerFired m by (simp add: observe_def n_def)
    consider (exit) "nO \<ge> 3"
      | (same) "nO < 3" "n = nP" "Settle_loop p n (nO + 1) (tp + 1) evs = Some (Inr Settled)"
      | (diff) "nO < 3" "n \<noteq> nP" "Settle_loop p n 0 (tp + 1) evs = Some (Inr Settled)"
      using Cons.prems TimerFired m
      by (auto simp add: n_def NumOkayRequired_def Let_def split: if_splits)
    then show ?thesis
    proof cases
      case exit
      have "ev # evs = [ev] @ evs \<and> map (observe p) [ev] = map Some [n]
          \<and> [n] = replicate (3 - nO) nP @ [n]"
        using ob exit by simp
      then show ?thesis by blast
    next
      case same
      from Cons.IH [OF same(3)] obtain ticks rest obs where
        ih: "evs = ticks @ rest" "map (observe p) ticks = map Some obs"
          "(\<exists>pre c x. obs = pre @ [c, c, c, x] \<and> last (n # pre) = c)
            \<or> (\<exists>x. obs = replicate (3 - (nO + 1)) n @ [x])" by blast
      have split: "ev # evs = (ev # ticks) @ rest \<and> map (observe p) (ev # ticks) = map Some (n # obs)"
        using ih ob by simp
      from ih(3) show ?thesis
      proof
        assume "\<exists>pre c x. obs = pre @ [c, c, c, x] \<and> last (n # pre) = c"
        then obtain pre c x where "obs = pre @ [c, c, c, x]" "last (n # pre) = c" by blast
        then have "n # obs = (n # pre) @ [c, c, c, x] \<and> last (nP # n # pre) = c" by simp
        with split show ?thesis by blast
      next
        assume "\<exists>x. obs = replicate (3 - (nO + 1)) n @ [x]"
        then obtain x where "obs = replicate (3 - (nO + 1)) n @ [x]" by blast
        moreover have "3 - nO = Suc (3 - (nO + 1))" using same(1) by simp
        ultimately have "n # obs = replicate (3 - nO) nP @ [x]" using same(2) by simp
        with split show ?thesis by blast
      qed
    next
      case diff
      from Cons.IH [OF diff(3)] obtain ticks rest obs where
        ih: "evs = ticks @ rest" "map (observe p) ticks = map Some obs"
          "(\<exists>pre c x. obs = pre @ [c, c, c, x] \<and> last (n # pre) = c)
            \<or> (\<exists>x. obs = replicate (3 - 0) n @ [x])" by blast
      have split: "ev # evs = (ev # ticks) @ rest \<and> map (observe p) (ev # ticks) = map Some (n # obs)"
        using ih ob by simp
      from ih(3) show ?thesis
      proof
        assume "\<exists>pre c x. obs = pre @ [c, c, c, x] \<and> last (n # pre) = c"
        then obtain pre c x where "obs = pre @ [c, c, c, x]" "last (n # pre) = c" by blast
        then have "n # obs = (n # pre) @ [c, c, c, x] \<and> last (nP # n # pre) = c" by simp
        with split show ?thesis by blast
      next
        assume "\<exists>x. obs = replicate (3 - 0) n @ [x]"
        then obtain x where "obs = [n, n, n, x]" by (auto simp add: numeral_3_eq_3)
        then have "n # obs = [n] @ [n, n, n, x] \<and> last (nP # [n]) = n" by simp
        with split show ?thesis by blast
      qed
    qed
  qed
qed

lemma Settle_loop_cancelled:
  "Settle_loop p nP nO tp ticks = None \<Longrightarrow>
     Settle_loop p nP nO tp (ticks @ CtxDone # rest) = Some (Inr Cancelled)"
proof (induction ticks arbitrary: nP nO tp)
  case Nil
  then show ?case by simp
next
  case (Cons ev ticks)
  show ?case
  proof (cases ev)
    case CtxDone
    with Cons.prems show ?thesis by simp
  next
    case (TimerFired scan vals now)
    with Cons.prems Cons.IH show ?thesis
      by (auto simp add: Let_def split: sum.splits if_splits)
  qed
qed


lemma close_readyc_Inr:
  "close_readyc q = Inr p' \<Longrightarrow> \<not> readyc q \<and> p' = q\<lparr>readyc := True, effects := effects q @ [ClosedReady]\<rparr>"
  by (cases "readyc q") (simp_all add: close_readyc_def)

lemma Settle_Settled:
  assumes "Settle p evs = Some (Inr (Settled, p'))"
  shows "Settle_loop p 0 0 0 evs = Some (Inr Settled) \<and> close_readyc (requestFullState p) = Inr p'"
proof (cases "Settle_loop p 0 0 0 evs")
  case None
  with assms show ?thesis by (simp add: Settle_def)
next
  case (Some r)
  show ?thesis
  proof (cases r)
    case (Inl pn)
    with Some assms show ?thesis by (simp add: Settle_def)
  next
    case (Inr ex)
    show ?thesis
    proof (cases ex)
      case Cancelled
      with Some Inr assms show ?thesis
        by (cases "close_readyc p") (simp_all add: Settle_def)
    next
      case Settled
      with Some Inr assms show ?thesis
        by (cases "close_readyc (requestFullState p)") (simp_all add: Settle_def)
    qed
  qed
qed

text \<open>
  The counter of unchanged polls, one poll later; and the loop after polls that each
  found the counter below 3: it goes on with the last count, the counter and the
  number of polls.
\<close>

lemma zip_shift_snoc:
  "zip (xs @ [n]) (a # xs @ [n]) = zip xs (a # xs) @ [(n, last (a # xs))]"
  by (induction xs arbitrary: a) simp_all

lemma unchanged_Nil: "unchanged [] = 0"
  by (simp add: unchanged_def)

lemma unchanged_snoc:
  "unchanged (obs @ [n]) = (if n = last (0 # obs) then unchanged obs + 1 else 0)"
  unfolding unchanged_def zip_shift_snoc by simp

lemma Settle_loop_polls:
  "map (observe p) ticks = map Some obs \<Longrightarrow> \<forall>k<length obs. unchanged (take k obs) < 3 \<Longrightarrow>
     Settle_loop p 0 0 0 (ticks @ evs) = Settle_loop p (last (0 # obs)) (unchanged obs) (length obs) evs"
proof (induction ticks arbitrary: obs evs rule: rev_induct)
  case Nil
  then show ?case by (simp add: unchanged_Nil)
next
  case (snoc ev ticks)
  from snoc.prems(1) obtain obs' n where obs: "obs = obs' @ [n]"
    and m: "map (observe p) ticks = map Some obs'" and o: "observe p ev = Some n"
    by (cases obs rule: rev_cases) auto
  from snoc.prems(2) obs have b: "\<forall>k<length obs'. unchanged (take k obs') < 3"
    by (auto simp add: less_Suc_eq)
  from snoc.prems(2) [rule_format, of "length obs'"] obs have u: "unchanged obs' < 3" by simp
  from o obtain scan vals now members where ev: "ev = TimerFired scan vals now"
    and mem: "Members p scan vals now = Inr members" and n: "n = length members"
    by (cases ev) (auto simp add: observe_def split: sum.splits)
  have "Settle_loop p 0 0 0 ((ticks @ [ev]) @ evs) = Settle_loop p 0 0 0 (ticks @ ev # evs)" by simp
  also have "\<dots> = Settle_loop p (last (0 # obs')) (unchanged obs') (length obs') (ev # evs)"
    by (rule snoc.IH [OF m b])
  also have "\<dots> = Settle_loop p (last (0 # obs)) (unchanged obs) (length obs) evs"
    using u by (simp add: ev mem n obs unchanged_snoc NumOkayRequired_def Let_def)
  finally show ?case .
qed

lemma Settle_loop_poll_exits:
  "observe p ev = Some x \<Longrightarrow> 3 \<le> nO \<Longrightarrow> Settle_loop p nP nO tp (ev # rest) = Some (Inr Settled)"
  by (cases ev) (auto simp add: observe_def NumOkayRequired_def Let_def split: sum.splits)

text \<open>
  A run of the loop that leaves by the cancelled path has consumed polls only, and then
  found the context done.
\<close>

lemma Settle_loop_Cancelled:
  "Settle_loop p nP nO tp evs = Some (Inr Cancelled) \<Longrightarrow>
     \<exists>ticks rest obs. evs = ticks @ CtxDone # rest \<and> map (observe p) ticks = map Some obs"
proof (induction evs arbitrary: nP nO tp)
  case Nil
  then show ?case by simp
next
  case (Cons ev evs)
  show ?case
  proof (cases ev)
    case CtxDone
    then have "ev # evs = [] @ CtxDone # evs \<and> map (observe p) [] = map Some []" by simp
    then show ?thesis by blast
  next
    case (TimerFired scan vals now)
    with Cons.prems obtain members where m: "Members p scan vals now = Inr members"
      by (auto split: sum.splits)
    have ob: "observe p ev = Some (length members)"
      using TimerFired m by (simp add: observe_def)
    from Cons.prems TimerFired m obtain nP' nO' where
      "Settle_loop p nP' nO' (tp + 1) evs = Some (Inr Cancelled)"
      by (auto simp add: Let_def split: if_splits)
    from Cons.IH [OF this] obtain ticks rest obs where
      "evs = ticks @ CtxDone # rest" "map (observe p) ticks = map Some obs" by blast
    with ob have "ev # evs = (ev # ticks) @ CtxDone # rest
        \<and> map (observe p) (ev # ticks) = map Some (length members # obs)" by simp
    then show ?thesis by blast
  qed
qed

lemma Settle_Cancelled:
  assumes "Settle p evs = Some (Inr (Cancelled, p'))"
  shows "Settle_loop p 0 0 0 evs = Some (Inr Cancelled) \<and> close_readyc p = Inr p'"
proof (cases "Settle_loop p 0 0 0 evs")
  case None
  with assms show ?thesis by (simp add: Settle_def)
next
  case (Some r)
  show ?thesis
  proof (cases r)
    case (Inl pn)
    with Some assms show ?thesis by (simp add: Settle_def)
  next
    case (Inr ex)
    show ?thesis
    proof (cases ex)
      case Cancelled
      with Some Inr assms show ?thesis
        by (cases "close_readyc p") (simp_all add: Settle_def)
    next
      case Settled
      with Some Inr assms show ?thesis
        by (cases "close_readyc (requestFullState p)") (simp_all add: Settle_def)
    qed
  qed
qed

text \<open>The polls of the examples: three live members, and two.\<close>

lemma observe_examples:
  "observe example_peer (TimerFired (Inr [''am:a'', ''am:b'', ''am:c''])
       [Some ''100'', Some ''95'', Some ''100''] (Unix 150)) = Some 3"
  "observe example_peer (TimerFired (Inr [''am:a'', ''am:b'']) [Some ''100'', Some ''95''] (Unix 150)) = Some 2"
  by (simp_all add: observe_def Members_def ParseInt_examples example_peer_fields Unix_examples
      Second_def Before_def Add_def)

lemma unchanged_examples:
  "unchanged [3] = 0"
  "unchanged [3, 2] = 0"
  "unchanged [3, 2, 2] = 1"
  "unchanged [3, 2, 2, 2] = 2"
  "unchanged [3, 2, 2, 2, 2] = 3"
  by (simp_all add: unchanged_def)

subsection \<open>The example states and codec\<close>

lemma other_peer_fields:
  "name other_peer = ''c''"
  "prefix other_peer = ''am:''"
  "states other_peer = []"
  "effects other_peer = []"
  by (simp_all add: other_peer_def newRedisPeer_def)

lemma example_proto_simps:
  "Marshal_Part example_proto part = (Key part @ ''='' @ Data part, None)"
  "Unmarshal_Part example_proto = decode_Part"
  "Marshal_FullState example_proto fs = (concat (map (\<lambda>part. encode_Part part @ '';'') (Parts fs)), None)"
  by (simp_all add: example_proto_def encode_Part_def)

lemma example_State_simps:
  "Merge example_State s b = (if b = ''bad'' then (Some ''merge failed'', s) else (None, s @ [b]))"
  "MarshalBinary example_State s = (if s = [] then ([], Some ''nothing to marshal'') else (concat s, None))"
  by (simp_all add: example_State_def)

lemma decode_examples:
  "decode_Part ''am:nfl=d'' = Some (Part ''am:nfl'' ''d'')"
  "decode_Part ''nfl=d'' = Some (Part ''nfl'' ''d'')"
  by (simp_all add: decode_Part_def)

lemma Unmarshal_FullState_examples:
  "Unmarshal_FullState example_proto ''zzz=q;nfl=ok;sil=bad;nfl=late;'' =
     Some (FullState [Part ''zzz'' ''q'', Part ''nfl'' ''ok'', Part ''sil'' ''bad'', Part ''nfl'' ''late''])"
  "Unmarshal_FullState example_proto ''nfl=y;'' = Some (FullState [Part ''nfl'' ''y''])"
  by (simp_all add: example_proto_def decode_Part_def)

lemma registered_peer_fields:
  "name registered_peer = ''a''"
  "prefix registered_peer = ''am:''"
  "states registered_peer = [(''nfl'', [''x'']), (''sil'', [])]"
  "effects registered_peer = []"
  "readyc registered_peer = False"
  by (simp_all add: registered_peer_def AddState_def example_peer_fields)

lemma LocalState_registered:
  "LocalState_all example_State registered_peer = FullState [Part ''nfl'' ''x'', Part ''sil'' []]"
  "fst (LocalState example_State example_proto registered_peer) = ''nfl=x;sil=;''"
  by (simp_all add: LocalState_def LocalState_all_def registered_peer_fields example_State_simps
      example_proto_simps encode_Part_def)

lemma Members_nothing: "Members p (Inr []) [] now = Inr []"
  by (simp add: Members_def)

subsection \<open>Merging the parts of a full state\<close>

lemma mergeParts_append_False:
  "mergeParts st pre p = (False, q) \<Longrightarrow> mergeParts st (pre @ post) p = mergeParts st post q"
proof (induction pre arbitrary: p)
  case Nil
  then show ?case by simp
next
  case (Cons part pre)
  show ?case
  proof (cases "map_of (states p) (Key part)")
    case None
    with Cons show ?thesis by simp
  next
    case (Some s)
    obtain err s' where m: "Merge st s (Data part) = (err, s')" by (cases "Merge st s (Data part)")
    show ?thesis
    proof (cases err)
      case None
      with Some m Cons show ?thesis by (simp add: Let_def)
    next
      case (Some e)
      with \<open>map_of (states p) (Key part) = Some s\<close> m Cons.prems show ?thesis by (simp add: Let_def)
    qed
  qed
qed

lemma mergeParts_error:
  "map_of (states q) (Key bad) = Some s \<Longrightarrow> Merge st s (Data bad) = (Some e, s') \<Longrightarrow>
     mergeParts st (bad # post) q =
       (True, q\<lparr>states := AList.update (Key bad) s' (states q),
                effects := effects q @ [Merged (Key bad) (Data bad)]\<rparr>)"
  by (simp add: Let_def)

text \<open>
  A merge leaves the keys of the registry as they are; and when every merge of a list
  of parts succeeds, the loop runs to its end and has merged the registered parts of the
  list, in order.
\<close>

lemma registered_update:
  "map_of (states p) k = Some s \<Longrightarrow>
     registered (p\<lparr>states := AList.update k s' (states p), effects := es\<rparr>) part = registered p part"
  by (auto simp add: registered_def update_conv')

lemma mergeParts_all_succeed:
  "\<forall>x\<in>set parts. \<forall>s. fst (Merge st s (Data x)) = None \<Longrightarrow>
     fst (mergeParts st parts p) = False
     \<and> effects (snd (mergeParts st parts p)) = effects p @ map merged (filter (registered p) parts)
     \<and> (\<forall>part. registered (snd (mergeParts st parts p)) part = registered p part)"
proof (induction parts arbitrary: p)
  case Nil
  then show ?case by simp
next
  case (Cons x parts)
  from Cons.prems have rest: "\<forall>x\<in>set parts. \<forall>s. fst (Merge st s (Data x)) = None" by simp
  show ?case
  proof (cases "map_of (states p) (Key x)")
    case None
    with Cons.IH [OF rest, of p] show ?thesis by (simp add: registered_def)
  next
    case (Some s)
    obtain err s' where m: "Merge st s (Data x) = (err, s')" by (cases "Merge st s (Data x)")
    from Cons.prems have "fst (Merge st s (Data x)) = None" by simp
    with m have err: "err = None" by simp
    define p1 where "p1 = p\<lparr>states := AList.update (Key x) s' (states p),
      effects := effects p @ [Merged (Key x) (Data x)]\<rparr>"
    have r: "\<And>part. registered p1 part = registered p part"
      unfolding p1_def using Some by (rule registered_update)
    have step: "mergeParts st (x # parts) p = mergeParts st parts p1"
      using Some m err by (simp add: p1_def)
    have e1: "effects p1 = effects p @ [merged x]" by (simp add: p1_def merged_def)
    have rx: "registered p x" using Some by (simp add: registered_def)
    from Cons.IH [OF rest, of p1] r e1 rx show ?thesis
      unfolding step by (simp cong: filter_cong)
  qed
qed

subsection \<open>Channel handles and local state\<close>

lemma AddState_channel: "channel (snd (AddState p key state)) = prefix p @ key"
  by (simp add: AddState_def withPrefix_def)

lemma LocalState_loop_keys:
  "map Key (LocalState_loop st sts parts) = map Key parts @ map fst sts"
  by (induction sts arbitrary: parts) (auto split: prod.splits)

section \<open>The claims\<close>

subsection \<open>Membership\<close>

text \<open>
  C2, as stated, fails: not every reply makes \<open>Members\<close> return the live keys. A
  present value that does not parse makes it panic and return nothing; and a present
  value as large as the largest 64-bit integer parses to a time far later than now,
  but \<open>time.Unix\<close> wraps it around into the past, so that its key is left out.
\<close>

theorem Members_live_keys_counterexample:
  "Members example_peer (Inr [''am:a'']) [Some ''soon''] (Unix 150) = Inl ParsePanic
   \<and> live (Unix 150) (heartbeatTimeout example_peer) (Some ''9223372036854775807'')
   \<and> Members example_peer (Inr [''am:a'']) [Some ''9223372036854775807''] (Unix 150) = Inr []"
  by (simp add: Members_def live_def ParseInt_examples example_peer_fields Unix_examples Second_def
      Before_def Add_def)

text \<open>
  C2, amended. On a scan that returned keys and an \<open>MGET\<close> reply with one value per
  key, in which every present value is the decimal text of seconds that \<open>time.Unix\<close>
  represents, \<open>Members\<close> returns exactly the keys whose value is present and whose
  value, parsed as decimal integer seconds, is not earlier than now minus the peer's
  heartbeat timeout (one minute, set by the constructor), sorted lexicographically.
  When the scan fails or returns no keys, \<open>Members\<close> returns the empty list.
\<close>

theorem Members_live_keys_sorted:
  "(length vals = length members \<and> (\<forall>v. Some v \<in> set vals \<longrightarrow> unix_seconds_text v) \<longrightarrow>
      Members p (Inr members) vals now =
        Inr (sort (map fst (filter (\<lambda>(key, v). live now (heartbeatTimeout p) v) (zip members vals)))))
   \<and> Members p (Inl err) vals now = Inr []
   \<and> Members p (Inr []) vals now = Inr []"
proof (intro conjI impI)
  assume a: "length vals = length members \<and> (\<forall>v. Some v \<in> set vals \<longrightarrow> unix_seconds_text v)"
  then have "Members_loop now (heartbeatTimeout p) vals 0 members [] =
      Inr ([] @ map fst (filter (\<lambda>(key, v). live now (heartbeatTimeout p) v) (zip members (drop 0 vals))))"
    by (intro Members_loop_filter) simp_all
  then show "Members p (Inr members) vals now =
        Inr (sort (map fst (filter (\<lambda>(key, v). live now (heartbeatTimeout p) v) (zip members vals))))"
    by (cases members) (simp_all add: Members_def)
qed (simp_all add: Members_def)

text \<open>
  At 150 s, with a timeout of 60 s: \<open>am:b\<close> (100 s) and \<open>am:a\<close> (95 s) are live,
  \<open>am:c\<close> (10 s) is stale and \<open>am:d\<close> has no value.
\<close>

theorem Members_live_keys_sorted_witness:
  "length [Some ''100'', None, Some ''10'', Some ''95''] = length [''am:b'', ''am:d'', ''am:c'', ''am:a'']
   \<and> unix_seconds_text ''100'' \<and> unix_seconds_text ''10'' \<and> unix_seconds_text ''95''
   \<and> heartbeatTimeout example_peer = 60 * Second
   \<and> Members example_peer (Inr [''am:b'', ''am:d'', ''am:c'', ''am:a''])
        [Some ''100'', None, Some ''10'', Some ''95''] (Unix 150) = Inr [''am:a'', ''am:b'']"
proof -
  have h: "length [Some ''100'', None, Some ''10'', Some ''95''] = length [''am:b'', ''am:d'', ''am:c'', ''am:a'']
      \<and> (\<forall>v. Some v \<in> set [Some ''100'', None, Some ''10'', Some ''95''] \<longrightarrow> unix_seconds_text v)"
    by (auto simp add: unix_seconds_text_examples)
  have "Members example_peer (Inr [''am:b'', ''am:d'', ''am:c'', ''am:a''])
          [Some ''100'', None, Some ''10'', Some ''95''] (Unix 150) =
        Inr (sort (map fst (filter (\<lambda>(key, v). live (Unix 150) (heartbeatTimeout example_peer) v)
          (zip [''am:b'', ''am:d'', ''am:c'', ''am:a''] [Some ''100'', None, Some ''10'', Some ''95'']))))"
    using Members_live_keys_sorted [of "[Some ''100'', None, Some ''10'', Some ''95'']"
        "[''am:b'', ''am:d'', ''am:c'', ''am:a'']" example_peer "Unix 150"] h by blast
  also have "\<dots> = Inr [''am:a'', ''am:b'']"
    by (simp add: live_def ParseInt_examples example_peer_fields Unix_examples Second_def)
  finally show ?thesis
    by (simp add: unix_seconds_text_examples example_peer_fields Second_def)
qed

text \<open>
  C4, as stated, fails: \<open>Members\<close> sorts the surviving keys and removes nothing, so a
  key that the scan returns twice is returned twice.
\<close>

theorem Members_duplicates_counterexample:
  "Members example_peer (Inr [''am:a'', ''am:a'']) [Some ''100'', Some ''100''] (Unix 150)
     = Inr [''am:a'', ''am:a'']
   \<and> \<not> distinct [''am:a'', ''am:a'']"
  by (simp add: Members_def ParseInt_examples example_peer_fields Unix_examples Second_def
      Before_def Add_def)

text \<open>
  C4, amended. Whatever the broker replies, a list that \<open>Members\<close> returns is
  lexicographically sorted; it holds no name twice when the scan holds no key twice.
\<close>

theorem Members_sorted_distinct:
  "Members p scan vals now = Inr ms \<Longrightarrow>
     sorted ms \<and> (\<forall>members. scan = Inr members \<and> distinct members \<longrightarrow> distinct ms)"
proof (cases scan)
  case (Inl err)
  assume "Members p scan vals now = Inr ms"
  with Inl show ?thesis by (simp add: Members_def)
next
  case (Inr members)
  assume m: "Members p scan vals now = Inr ms"
  show ?thesis
  proof (cases "members = []")
    case True
    with m Inr show ?thesis by (simp add: Members_def)
  next
    case False
    with m Inr obtain peers where
      l: "Members_loop now (heartbeatTimeout p) vals 0 members [] = Inr peers" and ms: "ms = sort peers"
      by (auto simp add: Members_def split: sum.splits)
    from Members_loop_distinct [OF l] have "distinct members \<longrightarrow> distinct peers" by auto
    with ms Inr show ?thesis by simp
  qed
qed

theorem Members_sorted_distinct_witness:
  "Members example_peer (Inr [''am:b'', ''am:a'']) [Some ''100'', Some ''95''] (Unix 150)
     = Inr [''am:a'', ''am:b'']
   \<and> sorted [''am:a'', ''am:b''] \<and> distinct [''am:b'', ''am:a''] \<and> distinct [''am:a'', ''am:b'']"
proof -
  have m: "Members example_peer (Inr [''am:b'', ''am:a'']) [Some ''100'', Some ''95''] (Unix 150)
      = Inr [''am:a'', ''am:b'']"
    by (simp add: Members_def ParseInt_examples example_peer_fields Unix_examples Second_def
        Before_def Add_def)
  have d: "distinct [''am:b'', ''am:a'']" by simp
  from Members_sorted_distinct [OF m] d have "sorted [''am:a'', ''am:b''] \<and> distinct [''am:a'', ''am:b'']"
    by blast
  with m d show ?thesis by blast
qed

text \<open>
  C9, as stated, fails in its second half: a present value can be a decimal-integer
  string and still make \<open>Members\<close> panic, because the parse is for 64 bits. Twenty
  nines are a decimal integer that no signed 64-bit integer holds.
\<close>

theorem Members_panic_counterexample:
  "decimal_integer ''99999999999999999999''
   \<and> Members example_peer (Inr [''am:a'']) [Some ''99999999999999999999''] (Unix 150) = Inl ParsePanic"
  by (simp add: Members_def ParseInt_examples decimal_integer_def is_digit_def less_eq_char_def)

text \<open>
  C9, amended. \<open>Members\<close> panics whenever the value of some scanned key is present and
  is not the decimal text of a signed 64-bit integer; conversely, when the \<open>MGET\<close>
  reply holds one value per key and every present value is the decimal text of a signed
  64-bit integer, the panic is not reached and \<open>Members\<close> returns a list.
\<close>

theorem Members_panic_iff_unparsable:
  "(i < length members \<and> i < length vals \<and> vals ! i = Some v \<and> \<not> int64_text v \<longrightarrow>
      Members p (Inr members) vals now = Inl ParsePanic)
   \<and> (length vals = length members \<and> (\<forall>v. Some v \<in> set vals \<longrightarrow> int64_text v) \<longrightarrow>
        (\<exists>ms. Members p (Inr members) vals now = Inr ms))"
proof (intro conjI impI)
  assume a: "i < length members \<and> i < length vals \<and> vals ! i = Some v \<and> \<not> int64_text v"
  then have "ParseInt v = None" by (simp add: ParseInt_eq)
  with a have "Members_loop now (heartbeatTimeout p) vals 0 members [] = Inl ParsePanic"
    by (intro Members_loop_panic [where j = i and v = v]) simp_all
  moreover from a have "members \<noteq> []" by auto
  ultimately show "Members p (Inr members) vals now = Inl ParsePanic"
    by (simp add: Members_def)
next
  assume a: "length vals = length members \<and> (\<forall>v. Some v \<in> set vals \<longrightarrow> int64_text v)"
  then have "\<forall>v. Some v \<in> set vals \<longrightarrow> ParseInt v \<noteq> None"
    by (simp add: ParseInt_eq)
  with a have "\<exists>ps. Members_loop now (heartbeatTimeout p) vals 0 members [] = Inr ps"
    by (intro Members_loop_returns) simp_all
  then show "\<exists>ms. Members p (Inr members) vals now = Inr ms"
    by (auto simp add: Members_def)
qed

theorem Members_panic_iff_unparsable_witness:
  "((0::nat) < length [''am:a''] \<and> 0 < length [Some ''soon''] \<and> [Some ''soon''] ! 0 = Some ''soon''
      \<and> \<not> int64_text ''soon''
      \<and> Members example_peer (Inr [''am:a'']) [Some ''soon''] (Unix 150) = Inl ParsePanic)
   \<and> (length [Some ''100'', Some ''95''] = length [''am:b'', ''am:a'']
      \<and> int64_text ''100'' \<and> int64_text ''95''
      \<and> (\<exists>ms. Members example_peer (Inr [''am:b'', ''am:a'']) [Some ''100'', Some ''95''] (Unix 150) = Inr ms))"
proof -
  have h1: "(0::nat) < length [''am:a''] \<and> 0 < length [Some ''soon''] \<and> [Some ''soon''] ! 0 = Some ''soon''
      \<and> \<not> int64_text ''soon''"
    by (simp add: int64_text_examples)
  have h2: "length [Some ''100'', Some ''95''] = length [''am:b'', ''am:a'']
      \<and> (\<forall>v. Some v \<in> set [Some ''100'', Some ''95''] \<longrightarrow> int64_text v)"
    by (auto simp add: int64_text_examples)
  from h1 have "Members example_peer (Inr [''am:a'']) [Some ''soon''] (Unix 150) = Inl ParsePanic"
    using Members_panic_iff_unparsable [of 0 "[''am:a'']" "[Some ''soon'']" "''soon''" example_peer "Unix 150"]
    by blast
  moreover from h2
  have "\<exists>ms. Members example_peer (Inr [''am:b'', ''am:a'']) [Some ''100'', Some ''95''] (Unix 150) = Inr ms"
    using Members_panic_iff_unparsable [of _ "[''am:b'', ''am:a'']" "[Some ''100'', Some ''95'']" _ example_peer "Unix 150"]
    by blast
  ultimately show ?thesis using h1 h2 by (simp add: int64_text_examples)
qed

subsection \<open>Position\<close>

text \<open>
  C3, as stated, fails in its second case: the list that \<open>Members\<close> returns can hold
  the self-name more than once (a scan that returns a key twice), so that the self-name
  occurs at an index that \<open>Position\<close> does not return. With \<open>b\<close> at the indices 1
  and 2 of the list, \<open>Position\<close> returns 1 and caches 1.
\<close>

theorem Position_index_counterexample:
  "Members bare_peer (Inr [''c'', ''b'', ''a'', ''b''])
       [Some ''100'', Some ''100'', Some ''100'', Some ''100''] (Unix 150)
     = Inr [''a'', ''b'', ''b'', ''c'']
   \<and> [''a'', ''b'', ''b'', ''c''] ! 2 = name bare_peer
   \<and> Position bare_peer (Inr [''c'', ''b'', ''a'', ''b''])
       [Some ''100'', Some ''100'', Some ''100'', Some ''100''] (Unix 150)
     = Inr (1, bare_peer\<lparr>position := 1, positionFetchedAt := Unix 150\<rparr>)"
  by (simp add: Position_def Members_def ParseInt_examples bare_peer_fields Unix_examples
      Second_def Before_def Add_def After_def)

text \<open>
  C3, amended. With \<open>ms\<close> the list that \<open>Members\<close> returns inside a call of \<open>Position\<close>:
  if \<open>ms\<close> is empty and the cached position was refreshed within the validity window
  (\<open>positionValidFor\<close>, one minute from the constructor), the cached position is
  returned and the cache is unchanged; if the self-name occurs in \<open>ms\<close>, first at
  index \<open>i\<close>, then \<open>i\<close> is returned and both the cached position and its refresh
  time are updated; if the self-name is absent and \<open>ms\<close> is non-empty or the cache has
  expired, 0 is returned and the cache is unchanged.
\<close>

theorem Position_cases:
  "Members p scan vals now = Inr ms \<Longrightarrow>
     (ms = [] \<and> positionFetchedAt p > now - positionValidFor p \<longrightarrow>
        Position p scan vals now = Inr (position p, p))
   \<and> (i < length ms \<and> ms ! i = name p \<and> (\<forall>j<i. ms ! j \<noteq> name p) \<longrightarrow>
        Position p scan vals now = Inr (int i, p\<lparr>position := int i, positionFetchedAt := now\<rparr>))
   \<and> (name p \<notin> set ms \<and> (ms \<noteq> [] \<or> \<not> positionFetchedAt p > now - positionValidFor p) \<longrightarrow>
        Position p scan vals now = Inr (0, p))"
proof (intro conjI impI)
  assume m: "Members p scan vals now = Inr ms"
  {
    assume "ms = [] \<and> positionFetchedAt p > now - positionValidFor p"
    with m show "Position p scan vals now = Inr (position p, p)"
      by (simp add: Position_def After_def Add_def)
  next
    assume a: "i < length ms \<and> ms ! i = name p \<and> (\<forall>j<i. ms ! j \<noteq> name p)"
    then have "Position_scan p now 0 ms = (int (0 + i), p\<lparr>position := int (0 + i), positionFetchedAt := now\<rparr>)"
      by (intro Position_scan_found) simp_all
    moreover from a have "ms \<noteq> []" by auto
    ultimately show "Position p scan vals now = Inr (int i, p\<lparr>position := int i, positionFetchedAt := now\<rparr>)"
      using m by (simp add: Position_def)
  next
    assume a: "name p \<notin> set ms \<and> (ms \<noteq> [] \<or> \<not> positionFetchedAt p > now - positionValidFor p)"
    then have "Position_scan p now 0 ms = (0, p)" by (simp add: Position_scan_absent)
    with a m show "Position p scan vals now = Inr (0, p)"
      by (auto simp add: Position_def After_def Add_def)
  }
qed


theorem Position_cases_witness:
  "Position (example_peer\<lparr>position := 2, positionFetchedAt := Unix 100\<rparr>)
       (Inl (Some ''connection refused'')) [] (Unix 150)
     = Inr (2, example_peer\<lparr>position := 2, positionFetchedAt := Unix 100\<rparr>)
   \<and> Position bare_peer (Inr [''a'', ''b'', ''c'']) [Some ''100'', Some ''100'', Some ''100''] (Unix 150)
     = Inr (1, bare_peer\<lparr>position := 1, positionFetchedAt := Unix 150\<rparr>)
   \<and> Position bare_peer (Inr [''a'', ''c'']) [Some ''100'', Some ''100''] (Unix 150)
     = Inr (0, bare_peer)"
proof -
  have m1: "Members (example_peer\<lparr>position := 2, positionFetchedAt := Unix 100\<rparr>)
      (Inl (Some ''connection refused'')) [] (Unix 150) = Inr []"
    by (simp add: Members_def)
  have m2: "Members bare_peer (Inr [''a'', ''b'', ''c'']) [Some ''100'', Some ''100'', Some ''100''] (Unix 150)
      = Inr [''a'', ''b'', ''c'']"
    by (simp add: Members_def ParseInt_examples bare_peer_fields Unix_examples Second_def Before_def Add_def)
  have m3: "Members bare_peer (Inr [''a'', ''c'']) [Some ''100'', Some ''100''] (Unix 150)
      = Inr [''a'', ''c'']"
    by (simp add: Members_def ParseInt_examples bare_peer_fields Unix_examples Second_def Before_def Add_def)
  from Position_cases [OF m1, of 0]
  have c1: "Position (example_peer\<lparr>position := 2, positionFetchedAt := Unix 100\<rparr>)
       (Inl (Some ''connection refused'')) [] (Unix 150)
     = Inr (2, example_peer\<lparr>position := 2, positionFetchedAt := Unix 100\<rparr>)"
    by (simp add: example_peer_fields Unix_examples Second_def)
  from Position_cases [OF m2, of 1]
  have c2: "Position bare_peer (Inr [''a'', ''b'', ''c'']) [Some ''100'', Some ''100'', Some ''100''] (Unix 150)
     = Inr (1, bare_peer\<lparr>position := 1, positionFetchedAt := Unix 150\<rparr>)"
    by (simp add: bare_peer_fields)
  from Position_cases [OF m3, of 0]
  have c3: "Position bare_peer (Inr [''a'', ''c'']) [Some ''100'', Some ''100''] (Unix 150)
     = Inr (0, bare_peer)"
    by (simp add: bare_peer_fields)
  from c1 c2 c3 show ?thesis by blast
qed

subsection \<open>Receive loops\<close>

text \<open>
  C10. In the per-state delta receive loop, the \<open>messages-received\<close> counter and the
  received-size counter, at the label \<open>update\<close>, grow by one and by the payload's
  length for every message the broker delivers, whatever the codec and the registered
  states do with it afterwards: also when the envelope does not decode, when its key
  names no registered state and when the merge returns an error. Over a run of the
  loop they grow by the number and by the total length of the delivered messages.
\<close>

theorem receiveLoop_counts_every_message:
  "messagesReceived (receiveLoop_body st pb nm (Message payload) p) update
     = messagesReceived p update + 1
   \<and> messagesReceivedSize (receiveLoop_body st pb nm (Message payload) p) update
     = messagesReceivedSize p update + length payload
   \<and> messagesReceived (receiveLoop st pb nm ins p) update
     = messagesReceived p update + length (delivered ins)
   \<and> messagesReceivedSize (receiveLoop st pb nm ins p) update
     = messagesReceivedSize p update + sum_list (map length (delivered ins))"
  using receiveLoop_counters [of st pb nm ins p]
  by (simp add: receiveLoop_body_counters)

text \<open>
  C8. In the full-state request receive loop, a delivered message whose payload is the
  peer's own name changes nothing and publishes nothing; any other delivered message
  makes the peer publish its local state once on the full-state channel. Over a run of
  the loop, the number of messages published is the number of delivered requests that
  carry another name.
\<close>

theorem fullStateReq_one_publish_per_foreign_request:
  "fullStateReqReceiveLoop_body st pb (Message (name p)) p = p
   \<and> (payload \<noteq> name p \<longrightarrow>
        effects (fullStateReqReceiveLoop_body st pb (Message payload) p) =
          effects p @ [Published (withPrefix p fullStateChannel) (fst (LocalState st pb p))])
   \<and> length (filter is_Published (effects (fullStateReqReceiveLoop st pb ins p))) =
       length (filter is_Published (effects p))
         + length (filter (\<lambda>payload. payload \<noteq> name p) (delivered ins))"
  using fullStateReq_loop_published [of st pb ins p]
  by (simp add: fullStateReqReceiveLoop_body_def fullStateSyncPublish_effects)

theorem fullStateReq_one_publish_per_foreign_request_witness:
  "''c'' \<noteq> name registered_peer
   \<and> effects (fullStateReqReceiveLoop_body example_State example_proto (Message ''c'') registered_peer)
       = [Published ''am:full_state'' ''nfl=x;sil=;'']
   \<and> fullStateReqReceiveLoop_body example_State example_proto (Message ''a'') registered_peer
       = registered_peer"
proof -
  have n: "''c'' \<noteq> name registered_peer" by (simp add: registered_peer_fields)
  from fullStateReq_one_publish_per_foreign_request
    [of example_State example_proto registered_peer "''c''" "[]"] n
  have "effects (fullStateReqReceiveLoop_body example_State example_proto (Message ''c'') registered_peer)
      = effects registered_peer
          @ [Published (withPrefix registered_peer fullStateChannel)
               (fst (LocalState example_State example_proto registered_peer))]"
    by blast
  then have e: "effects (fullStateReqReceiveLoop_body example_State example_proto (Message ''c'') registered_peer)
       = [Published ''am:full_state'' ''nfl=x;sil=;'']"
    by (simp add: LocalState_registered registered_peer_fields withPrefix_def fullStateChannel_def
        fullState_def)
  from fullStateReq_one_publish_per_foreign_request
    [of example_State example_proto registered_peer "''c''" "[]"]
  have "fullStateReqReceiveLoop_body example_State example_proto (Message (name registered_peer))
      registered_peer = registered_peer"
    by blast
  then have "fullStateReqReceiveLoop_body example_State example_proto (Message ''a'') registered_peer
       = registered_peer"
    by (simp add: registered_peer_fields)
  with n e show ?thesis by blast
qed

text \<open>
  C6. In the full-state receive loop the parts of a decoded envelope are processed in
  order. One part at a time: a part whose key is not registered is skipped and
  processing goes on with the next part; so it does after a part whose merge succeeds;
  after a part whose merge returns an error, processing stops, whatever parts follow.
  A whole message: when the merges of the parts before \<open>bad\<close> succeed and the merge
  of the registered part \<open>bad\<close> fails, the merges done are those of the registered
  parts before \<open>bad\<close>, in order, and of \<open>bad\<close>, and of no part after it; when no
  merge fails, they are those of all registered parts. And the loop goes on with the
  next input after a message, whether or not a merge of it failed.
\<close>

theorem fullState_merge_error_stops_message:
  "(map_of (states p) (Key part) = None \<longrightarrow>
      mergeParts st (part # parts) p = mergeParts st parts p)
   \<and> (map_of (states p) (Key part) = Some s \<and> Merge st s (Data part) = (None, s') \<longrightarrow>
      mergeParts st (part # parts) p =
        mergeParts st parts (p\<lparr>states := AList.update (Key part) s' (states p),
                                effects := effects p @ [Merged (Key part) (Data part)]\<rparr>))
   \<and> (map_of (states p) (Key part) = Some s \<and> Merge st s (Data part) = (Some e, s') \<longrightarrow>
      mergeParts st (part # parts) p =
        (True, p\<lparr>states := AList.update (Key part) s' (states p),
                 effects := effects p @ [Merged (Key part) (Data part)]\<rparr>))
   \<and> ((\<forall>x\<in>set pre. \<forall>t. fst (Merge st t (Data x)) = None) \<and> registered p bad
        \<and> (\<forall>t. fst (Merge st t (Data bad)) \<noteq> None) \<longrightarrow>
      fst (mergeParts st (pre @ bad # post) p)
      \<and> effects (snd (mergeParts st (pre @ bad # post) p)) =
          effects p @ map merged (filter (registered p) pre) @ [merged bad])
   \<and> ((\<forall>x\<in>set pre. \<forall>t. fst (Merge st t (Data x)) = None) \<longrightarrow>
      \<not> fst (mergeParts st pre p)
      \<and> effects (snd (mergeParts st pre p)) = effects p @ map merged (filter (registered p) pre))
   \<and> (Unmarshal_FullState pb payload = Some fs \<longrightarrow>
      fullStateSyncReceiveLoop st pb (Receive (Message payload) # ins) p =
        fullStateSyncReceiveLoop st pb ins
          (snd (mergeParts st (Parts fs)
             (p\<lparr>messagesReceived := (messagesReceived p)(fullState := messagesReceived p fullState + 1),
                messagesReceivedSize :=
                  (messagesReceivedSize p)(fullState := messagesReceivedSize p fullState + length payload)\<rparr>))))"
proof (intro conjI impI)
  assume "map_of (states p) (Key part) = None"
  then show "mergeParts st (part # parts) p = mergeParts st parts p" by simp
next
  assume "map_of (states p) (Key part) = Some s \<and> Merge st s (Data part) = (None, s')"
  then show "mergeParts st (part # parts) p =
        mergeParts st parts (p\<lparr>states := AList.update (Key part) s' (states p),
                                effects := effects p @ [Merged (Key part) (Data part)]\<rparr>)"
    by simp
next
  assume "map_of (states p) (Key part) = Some s \<and> Merge st s (Data part) = (Some e, s')"
  then show "mergeParts st (part # parts) p =
        (True, p\<lparr>states := AList.update (Key part) s' (states p),
                 effects := effects p @ [Merged (Key part) (Data part)]\<rparr>)"
    by simp
next
  assume a: "(\<forall>x\<in>set pre. \<forall>t. fst (Merge st t (Data x)) = None) \<and> registered p bad
        \<and> (\<forall>t. fst (Merge st t (Data bad)) \<noteq> None)"
  define q where "q = snd (mergeParts st pre p)"
  from a have ok: "\<forall>x\<in>set pre. \<forall>t. fst (Merge st t (Data x)) = None" by simp
  from mergeParts_all_succeed [OF ok, of p]
  have f: "mergeParts st pre p = (False, q)"
    and e: "effects q = effects p @ map merged (filter (registered p) pre)"
    and r: "registered q bad = registered p bad"
    by (simp_all add: q_def prod_eq_iff)
  from r a obtain s0 where s0: "map_of (states q) (Key bad) = Some s0"
    by (auto simp add: registered_def)
  obtain err s1 where m: "Merge st s0 (Data bad) = (err, s1)" by (cases "Merge st s0 (Data bad)")
  from a have "fst (Merge st s0 (Data bad)) \<noteq> None" by simp
  with m obtain e0 where m': "Merge st s0 (Data bad) = (Some e0, s1)" by auto
  have "mergeParts st (pre @ bad # post) p = mergeParts st (bad # post) q"
    using f by (rule mergeParts_append_False)
  also have "\<dots> = (True, q\<lparr>states := AList.update (Key bad) s1 (states q),
                 effects := effects q @ [Merged (Key bad) (Data bad)]\<rparr>)"
    using s0 m' by (rule mergeParts_error)
  finally have w: "mergeParts st (pre @ bad # post) p =
      (True, q\<lparr>states := AList.update (Key bad) s1 (states q),
                 effects := effects q @ [Merged (Key bad) (Data bad)]\<rparr>)" .
  show "fst (mergeParts st (pre @ bad # post) p)" unfolding w by simp
  show "effects (snd (mergeParts st (pre @ bad # post) p)) =
          effects p @ map merged (filter (registered p) pre) @ [merged bad]"
    unfolding w by (simp add: e merged_def)
next
  assume ok: "\<forall>x\<in>set pre. \<forall>t. fst (Merge st t (Data x)) = None"
  from mergeParts_all_succeed [OF ok, of p]
  show "\<not> fst (mergeParts st pre p)"
    and "effects (snd (mergeParts st pre p)) = effects p @ map merged (filter (registered p) pre)"
    by simp_all
next
  assume "Unmarshal_FullState pb payload = Some fs"
  then show "fullStateSyncReceiveLoop st pb (Receive (Message payload) # ins) p =
        fullStateSyncReceiveLoop st pb ins
          (snd (mergeParts st (Parts fs)
             (p\<lparr>messagesReceived := (messagesReceived p)(fullState := messagesReceived p fullState + 1),
                messagesReceivedSize :=
                  (messagesReceivedSize p)(fullState := messagesReceivedSize p fullState + length payload)\<rparr>)))"
    by (simp add: fullStateSyncReceiveLoop_body_def Let_def)
qed

text \<open>
  The first message names an unknown key, then \<open>nfl\<close>, whose merge succeeds, then
  \<open>sil\<close>, whose merge fails, then \<open>nfl\<close> again: the last part is not merged. The
  second message is merged as if nothing had failed.
\<close>

theorem fullState_merge_error_stops_message_witness:
  "map_of (states registered_peer) (Key (Part ''zzz'' ''q'')) = None
   \<and> mergeParts example_State [Part ''zzz'' ''q''] registered_peer = (False, registered_peer)
   \<and> map_of (states registered_peer) (Key (Part ''nfl'' ''ok'')) = Some [''x'']
   \<and> Merge example_State [''x''] (Data (Part ''nfl'' ''ok'')) = (None, [''x'', ''ok''])
   \<and> mergeParts example_State [Part ''nfl'' ''ok'', Part ''sil'' ''y''] registered_peer
       = (False, registered_peer\<lparr>states := [(''nfl'', [''x'', ''ok'']), (''sil'', [''y''])],
                  effects := [Merged ''nfl'' ''ok'', Merged ''sil'' ''y'']\<rparr>)
   \<and> Merge example_State [''x''] (Data (Part ''nfl'' ''bad'')) = (Some ''merge failed'', [''x''])
   \<and> mergeParts example_State [Part ''nfl'' ''bad'', Part ''sil'' ''y''] registered_peer
       = (True, registered_peer\<lparr>states := [(''nfl'', [''x'']), (''sil'', [])],
                  effects := [Merged ''nfl'' ''bad'']\<rparr>)
   \<and> registered registered_peer (Part ''sil'' ''bad'')
   \<and> fst (mergeParts example_State
         ([Part ''zzz'' ''q'', Part ''nfl'' ''ok''] @ Part ''sil'' ''bad'' # [Part ''nfl'' ''late''])
         registered_peer)
   \<and> effects (snd (mergeParts example_State
         ([Part ''zzz'' ''q'', Part ''nfl'' ''ok''] @ Part ''sil'' ''bad'' # [Part ''nfl'' ''late''])
         registered_peer))
       = [Merged ''nfl'' ''ok'', Merged ''sil'' ''bad'']
   \<and> effects (snd (mergeParts example_State [Part ''zzz'' ''q'', Part ''nfl'' ''ok''] registered_peer))
       = [Merged ''nfl'' ''ok'']
   \<and> Unmarshal_FullState example_proto ''zzz=q;nfl=ok;sil=bad;nfl=late;''
       = Some (FullState [Part ''zzz'' ''q'', Part ''nfl'' ''ok'', Part ''sil'' ''bad'', Part ''nfl'' ''late''])
   \<and> effects (fullStateSyncReceiveLoop example_State example_proto
         [Receive (Message ''zzz=q;nfl=ok;sil=bad;nfl=late;''), Receive (Message ''nfl=y;'')]
         registered_peer)
       = [Merged ''nfl'' ''ok'', Merged ''sil'' ''bad'', Merged ''nfl'' ''y'']"
proof -
  note t = fullState_merge_error_stops_message [where st = example_State and p = registered_peer]
  have h1: "map_of (states registered_peer) (Key (Part ''zzz'' ''q'')) = None"
    by (simp add: registered_peer_fields)
  from t [where part = "Part ''zzz'' ''q''" and parts = "[]"] h1
  have c1: "mergeParts example_State [Part ''zzz'' ''q''] registered_peer = (False, registered_peer)"
    by simp
  have h2: "map_of (states registered_peer) (Key (Part ''nfl'' ''ok'')) = Some [''x'']"
    by (simp add: registered_peer_fields)
  have h3: "Merge example_State [''x''] (Data (Part ''nfl'' ''ok'')) = (None, [''x'', ''ok''])"
    by (simp add: example_State_simps)
  from t [where part = "Part ''nfl'' ''ok''" and s = "[''x'']" and s' = "[''x'', ''ok'']"
      and parts = "[Part ''sil'' ''y'']"] h2 h3
  have "mergeParts example_State [Part ''nfl'' ''ok'', Part ''sil'' ''y''] registered_peer
      = mergeParts example_State [Part ''sil'' ''y'']
          (registered_peer\<lparr>states := AList.update (Key (Part ''nfl'' ''ok'')) [''x'', ''ok''] (states registered_peer),
             effects := effects registered_peer @ [Merged (Key (Part ''nfl'' ''ok'')) (Data (Part ''nfl'' ''ok''))]\<rparr>)"
    by blast
  then have c2: "mergeParts example_State [Part ''nfl'' ''ok'', Part ''sil'' ''y''] registered_peer
       = (False, registered_peer\<lparr>states := [(''nfl'', [''x'', ''ok'']), (''sil'', [''y''])],
                  effects := [Merged ''nfl'' ''ok'', Merged ''sil'' ''y'']\<rparr>)"
    by (simp add: registered_peer_fields example_State_simps)
  have h4: "map_of (states registered_peer) (Key (Part ''nfl'' ''bad'')) = Some [''x'']"
    by (simp add: registered_peer_fields)
  have h5: "Merge example_State [''x''] (Data (Part ''nfl'' ''bad'')) = (Some ''merge failed'', [''x''])"
    by (simp add: example_State_simps)
  from t [where part = "Part ''nfl'' ''bad''" and s = "[''x'']" and s' = "[''x'']"
      and e = "''merge failed''" and parts = "[Part ''sil'' ''y'']"] h4 h5
  have "mergeParts example_State [Part ''nfl'' ''bad'', Part ''sil'' ''y''] registered_peer
      = (True, registered_peer\<lparr>states := AList.update (Key (Part ''nfl'' ''bad'')) [''x''] (states registered_peer),
             effects := effects registered_peer @ [Merged (Key (Part ''nfl'' ''bad'')) (Data (Part ''nfl'' ''bad''))]\<rparr>)"
    by blast
  then have c3: "mergeParts example_State [Part ''nfl'' ''bad'', Part ''sil'' ''y''] registered_peer
       = (True, registered_peer\<lparr>states := [(''nfl'', [''x'']), (''sil'', [])],
                  effects := [Merged ''nfl'' ''bad'']\<rparr>)"
    by (simp add: registered_peer_fields)
  have h6: "\<forall>x\<in>set [Part ''zzz'' ''q'', Part ''nfl'' ''ok''].
      \<forall>t. fst (Merge example_State t (Data x)) = None"
    by (simp add: example_State_simps)
  have h7: "registered registered_peer (Part ''sil'' ''bad'')"
    by (simp add: registered_def registered_peer_fields)
  have h8: "\<forall>t. fst (Merge example_State t (Data (Part ''sil'' ''bad''))) \<noteq> None"
    by (simp add: example_State_simps)
  note w = t [where pre = "[Part ''zzz'' ''q'', Part ''nfl'' ''ok'']" and bad = "Part ''sil'' ''bad''"
      and post = "[Part ''nfl'' ''late'']"]
  from w h6 h7 h8
  have c4: "fst (mergeParts example_State
         ([Part ''zzz'' ''q'', Part ''nfl'' ''ok''] @ Part ''sil'' ''bad'' # [Part ''nfl'' ''late''])
         registered_peer)"
    by blast
  from w h6 h7 h8
  have "effects (snd (mergeParts example_State
         ([Part ''zzz'' ''q'', Part ''nfl'' ''ok''] @ Part ''sil'' ''bad'' # [Part ''nfl'' ''late''])
         registered_peer))
       = effects registered_peer
           @ map merged (filter (registered registered_peer) [Part ''zzz'' ''q'', Part ''nfl'' ''ok''])
           @ [merged (Part ''sil'' ''bad'')]"
    by blast
  also have "\<dots> = [Merged ''nfl'' ''ok'', Merged ''sil'' ''bad'']"
    by (simp add: registered_def merged_def registered_peer_fields)
  finally have c5: "effects (snd (mergeParts example_State
         ([Part ''zzz'' ''q'', Part ''nfl'' ''ok''] @ Part ''sil'' ''bad'' # [Part ''nfl'' ''late''])
         registered_peer))
       = [Merged ''nfl'' ''ok'', Merged ''sil'' ''bad'']" .
  from w h6
  have "effects (snd (mergeParts example_State [Part ''zzz'' ''q'', Part ''nfl'' ''ok''] registered_peer))
       = effects registered_peer
           @ map merged (filter (registered registered_peer) [Part ''zzz'' ''q'', Part ''nfl'' ''ok''])"
    by blast
  also have "\<dots> = [Merged ''nfl'' ''ok'']"
    by (simp add: registered_def merged_def registered_peer_fields)
  finally have c6: "effects (snd (mergeParts example_State [Part ''zzz'' ''q'', Part ''nfl'' ''ok''] registered_peer))
       = [Merged ''nfl'' ''ok'']" .
  have h9: "Unmarshal_FullState example_proto ''zzz=q;nfl=ok;sil=bad;nfl=late;''
       = Some (FullState [Part ''zzz'' ''q'', Part ''nfl'' ''ok'', Part ''sil'' ''bad'', Part ''nfl'' ''late''])"
    by (simp add: Unmarshal_FullState_examples)
  from t [where pb = example_proto and payload = "''zzz=q;nfl=ok;sil=bad;nfl=late;''"
      and fs = "FullState [Part ''zzz'' ''q'', Part ''nfl'' ''ok'', Part ''sil'' ''bad'', Part ''nfl'' ''late'']"
      and ins = "[Receive (Message ''nfl=y;'')]"] h9
  have "fullStateSyncReceiveLoop example_State example_proto
         [Receive (Message ''zzz=q;nfl=ok;sil=bad;nfl=late;''), Receive (Message ''nfl=y;'')]
         registered_peer
      = fullStateSyncReceiveLoop example_State example_proto [Receive (Message ''nfl=y;'')]
          (snd (mergeParts example_State
             (Parts (FullState [Part ''zzz'' ''q'', Part ''nfl'' ''ok'', Part ''sil'' ''bad'', Part ''nfl'' ''late'']))
             (registered_peer\<lparr>messagesReceived :=
                  (messagesReceived registered_peer)(fullState := messagesReceived registered_peer fullState + 1),
                messagesReceivedSize :=
                  (messagesReceivedSize registered_peer)
                    (fullState := messagesReceivedSize registered_peer fullState
                       + length ''zzz=q;nfl=ok;sil=bad;nfl=late;'')\<rparr>)))"
    by blast
  then have c7: "effects (fullStateSyncReceiveLoop example_State example_proto
         [Receive (Message ''zzz=q;nfl=ok;sil=bad;nfl=late;''), Receive (Message ''nfl=y;'')]
         registered_peer)
       = [Merged ''nfl'' ''ok'', Merged ''sil'' ''bad'', Merged ''nfl'' ''y'']"
    by (simp add: fullStateSyncReceiveLoop_body_def Unmarshal_FullState_examples Let_def
        registered_peer_fields example_State_simps)
  from h1 c1 h2 h3 c2 h5 c3 h7 c4 c5 c6 h9 c7 show ?thesis by blast
qed

subsection \<open>Settle\<close>

text \<open>
  C7. When \<open>Settle\<close> returns by the settled path, it has consumed polls only, the
  last four of which are three polls whose member count equals the count observed
  before them (0 before the first poll), so that the counter of unchanged polls has
  reached 3, and one more poll; it has then sent the full-state request and, after it,
  closed the readiness channel. When it returns by the other path, it has consumed polls
  and then found the context done; it has closed the readiness channel and sent no
  request. Conversely, after polls that each found the counter below 3, \<open>Settle\<close> is
  still waiting, whatever member counts they observed; if the context is done then, it
  closes the readiness channel and returns without a request; and if the counter has
  reached 3, the next poll makes it send the request, close the channel and return.
\<close>

theorem Settle_exits:
  "(Settle p evs = Some (Inr (Settled, p')) \<longrightarrow>
      (\<exists>ticks rest pre c x. evs = ticks @ rest
          \<and> map (observe p) ticks = map Some (pre @ [c, c, c, x]) \<and> last (0 # pre) = c)
      \<and> effects p' = effects p @ [Published (withPrefix p fullStateChannelReq) (name p), ClosedReady]
      \<and> readyc p')
   \<and> (Settle p evs = Some (Inr (Cancelled, p')) \<longrightarrow>
      (\<exists>ticks rest obs. evs = ticks @ CtxDone # rest \<and> map (observe p) ticks = map Some obs)
      \<and> effects p' = effects p @ [ClosedReady]
      \<and> readyc p')
   \<and> (map (observe p) ticks = map Some obs \<and> (\<forall>k<length obs. unchanged (take k obs) < 3) \<longrightarrow>
        Settle p ticks = None)
   \<and> (map (observe p) ticks = map Some obs \<and> (\<forall>k<length obs. unchanged (take k obs) < 3)
        \<and> \<not> readyc p \<longrightarrow>
        Settle p (ticks @ CtxDone # rest) =
          Some (Inr (Cancelled, p\<lparr>readyc := True, effects := effects p @ [ClosedReady]\<rparr>)))
   \<and> (map (observe p) ticks = map Some obs \<and> (\<forall>k<length obs. unchanged (take k obs) < 3)
        \<and> 3 \<le> unchanged obs \<and> observe p ev = Some n \<and> \<not> readyc p \<longrightarrow>
        Settle p (ticks @ ev # rest) =
          Some (Inr (Settled, p\<lparr>readyc := True,
            effects := effects p @ [Published (withPrefix p fullStateChannelReq) (name p), ClosedReady]\<rparr>)))"
proof (intro conjI impI)
  assume s: "Settle p evs = Some (Inr (Settled, p'))"
  from Settle_Settled [OF s] have l: "Settle_loop p 0 0 0 evs = Some (Inr Settled)"
    and c: "close_readyc (requestFullState p) = Inr p'" by simp_all
  from Settle_loop_settled [OF l] obtain ticks rest obs where
    o: "evs = ticks @ rest" "map (observe p) ticks = map Some obs"
      "(\<exists>pre c x. obs = pre @ [c, c, c, x] \<and> last (0 # pre) = c)
        \<or> (\<exists>x. obs = replicate (3 - 0) 0 @ [x])" by blast
  have "\<exists>pre c x. obs = pre @ [c, c, c, x] \<and> last (0 # pre) = c"
    using o(3)
  proof
    assume "\<exists>pre c x. obs = pre @ [c, c, c, x] \<and> last (0 # pre) = c"
    then show ?thesis .
  next
    assume "\<exists>x. obs = replicate (3 - 0) 0 @ [x]"
    then obtain x where "obs = [] @ [0, 0, 0, x] \<and> last (0 # []) = (0::nat)"
      by (auto simp add: numeral_3_eq_3)
    then show ?thesis by blast
  qed
  with o(1,2) show "\<exists>ticks rest pre c x. evs = ticks @ rest
          \<and> map (observe p) ticks = map Some (pre @ [c, c, c, x]) \<and> last (0 # pre) = c"
    by blast
  from close_readyc_Inr [OF c]
  have p': "p' = (requestFullState p)\<lparr>readyc := True, effects := effects (requestFullState p) @ [ClosedReady]\<rparr>"
    by simp
  show "effects p' = effects p @ [Published (withPrefix p fullStateChannelReq) (name p), ClosedReady]"
    unfolding p' by (simp add: requestFullState_def)
  show "readyc p'" unfolding p' by simp
next
  assume s: "Settle p evs = Some (Inr (Cancelled, p'))"
  from Settle_Cancelled [OF s] have l: "Settle_loop p 0 0 0 evs = Some (Inr Cancelled)"
    and c: "close_readyc p = Inr p'" by simp_all
  from Settle_loop_Cancelled [OF l]
  show "\<exists>ticks rest obs. evs = ticks @ CtxDone # rest \<and> map (observe p) ticks = map Some obs" .
  from close_readyc_Inr [OF c]
  have p': "p' = p\<lparr>readyc := True, effects := effects p @ [ClosedReady]\<rparr>" by simp
  show "effects p' = effects p @ [ClosedReady]" unfolding p' by simp
  show "readyc p'" unfolding p' by simp
next
  assume a: "map (observe p) ticks = map Some obs \<and> (\<forall>k<length obs. unchanged (take k obs) < 3)"
  then have "Settle_loop p 0 0 0 (ticks @ []) = Settle_loop p (last (0 # obs)) (unchanged obs) (length obs) []"
    by (intro Settle_loop_polls) simp_all
  then show "Settle p ticks = None" by (simp add: Settle_def)
next
  assume a: "map (observe p) ticks = map Some obs \<and> (\<forall>k<length obs. unchanged (take k obs) < 3)
        \<and> \<not> readyc p"
  then have "Settle_loop p 0 0 0 (ticks @ CtxDone # rest)
      = Settle_loop p (last (0 # obs)) (unchanged obs) (length obs) (CtxDone # rest)"
    by (intro Settle_loop_polls) simp_all
  then have "Settle_loop p 0 0 0 (ticks @ CtxDone # rest) = Some (Inr Cancelled)" by simp
  moreover from a have "close_readyc p = Inr (p\<lparr>readyc := True, effects := effects p @ [ClosedReady]\<rparr>)"
    by (simp add: close_readyc_def)
  ultimately show "Settle p (ticks @ CtxDone # rest) =
          Some (Inr (Cancelled, p\<lparr>readyc := True, effects := effects p @ [ClosedReady]\<rparr>))"
    by (simp add: Settle_def)
next
  assume a: "map (observe p) ticks = map Some obs \<and> (\<forall>k<length obs. unchanged (take k obs) < 3)
        \<and> 3 \<le> unchanged obs \<and> observe p ev = Some n \<and> \<not> readyc p"
  then have "Settle_loop p 0 0 0 (ticks @ ev # rest)
      = Settle_loop p (last (0 # obs)) (unchanged obs) (length obs) (ev # rest)"
    by (intro Settle_loop_polls) simp_all
  also from a have "\<dots> = Some (Inr Settled)"
    by (intro Settle_loop_poll_exits [where x = n]) simp_all
  finally have l: "Settle_loop p 0 0 0 (ticks @ ev # rest) = Some (Inr Settled)" .
  from a have "close_readyc (requestFullState p) =
      Inr (p\<lparr>readyc := True,
            effects := effects p @ [Published (withPrefix p fullStateChannelReq) (name p), ClosedReady]\<rparr>)"
    by (simp add: close_readyc_def requestFullState_def)
  with l show "Settle p (ticks @ ev # rest) =
          Some (Inr (Settled, p\<lparr>readyc := True,
            effects := effects p @ [Published (withPrefix p fullStateChannelReq) (name p), ClosedReady]\<rparr>))"
    by (simp add: Settle_def)
qed

text \<open>
  A broker with three live members at the first poll and two from then on. After three
  polls \<open>Settle\<close> is still waiting, and a context done then makes it return without
  a request; the sixth poll, the counter being 3 after the fifth, makes it settle.
\<close>

theorem Settle_exits_witness:
  "map (observe example_peer)
       [TimerFired (Inr [''am:a'', ''am:b'', ''am:c'']) [Some ''100'', Some ''95'', Some ''100''] (Unix 150),
        TimerFired (Inr [''am:a'', ''am:b'']) [Some ''100'', Some ''95''] (Unix 150),
        TimerFired (Inr [''am:a'', ''am:b'']) [Some ''100'', Some ''95''] (Unix 150)]
     = map Some [3, 2, 2]
   \<and> unchanged [] < 3 \<and> unchanged [3] < 3 \<and> unchanged [3, 2] < 3 \<and> unchanged [3, 2, 2] < 3
   \<and> unchanged [3, 2, 2, 2] < 3 \<and> 3 \<le> unchanged [3, 2, 2, 2, 2]
   \<and> \<not> readyc example_peer
   \<and> Settle example_peer
       [TimerFired (Inr [''am:a'', ''am:b'', ''am:c'']) [Some ''100'', Some ''95'', Some ''100''] (Unix 150),
        TimerFired (Inr [''am:a'', ''am:b'']) [Some ''100'', Some ''95''] (Unix 150),
        TimerFired (Inr [''am:a'', ''am:b'']) [Some ''100'', Some ''95''] (Unix 150)]
     = None
   \<and> Settle example_peer
       ([TimerFired (Inr [''am:a'', ''am:b'', ''am:c'']) [Some ''100'', Some ''95'', Some ''100''] (Unix 150),
         TimerFired (Inr [''am:a'', ''am:b'']) [Some ''100'', Some ''95''] (Unix 150),
         TimerFired (Inr [''am:a'', ''am:b'']) [Some ''100'', Some ''95''] (Unix 150)]
        @ CtxDone # [TimerFired (Inr [''am:a'', ''am:b'']) [Some ''100'', Some ''95''] (Unix 150)])
     = Some (Inr (Cancelled, example_peer\<lparr>readyc := True, effects := [ClosedReady]\<rparr>))
   \<and> effects (example_peer\<lparr>readyc := True, effects := [ClosedReady]\<rparr>)
       = effects example_peer @ [ClosedReady]
   \<and> Settle example_peer
       ([TimerFired (Inr [''am:a'', ''am:b'', ''am:c'']) [Some ''100'', Some ''95'', Some ''100''] (Unix 150),
         TimerFired (Inr [''am:a'', ''am:b'']) [Some ''100'', Some ''95''] (Unix 150),
         TimerFired (Inr [''am:a'', ''am:b'']) [Some ''100'', Some ''95''] (Unix 150),
         TimerFired (Inr [''am:a'', ''am:b'']) [Some ''100'', Some ''95''] (Unix 150),
         TimerFired (Inr [''am:a'', ''am:b'']) [Some ''100'', Some ''95''] (Unix 150)]
        @ TimerFired (Inr [''am:a'', ''am:b'']) [Some ''100'', Some ''95''] (Unix 150) # [])
     = Some (Inr (Settled,
         example_peer\<lparr>readyc := True,
           effects := [Published ''am:full_state:request'' ''a'', ClosedReady]\<rparr>))
   \<and> effects (example_peer\<lparr>readyc := True,
           effects := [Published ''am:full_state:request'' ''a'', ClosedReady]\<rparr>)
       = effects example_peer
           @ [Published (withPrefix example_peer fullStateChannelReq) (name example_peer), ClosedReady]"
proof -
  define e1 where "e1 = TimerFired (Inr [''am:a'', ''am:b'', ''am:c'']) [Some ''100'', Some ''95'', Some ''100''] (Unix 150)"
  define e2 where "e2 = TimerFired (Inr [''am:a'', ''am:b'']) [Some ''100'', Some ''95''] (Unix 150)"
  have o1: "observe example_peer e1 = Some 3" and o2: "observe example_peer e2 = Some 2"
    by (simp_all add: e1_def e2_def observe_examples)
  have m3: "map (observe example_peer) [e1, e2, e2] = map Some [3, 2, 2]"
    by (simp add: o1 o2)
  have m5: "map (observe example_peer) [e1, e2, e2, e2, e2] = map Some [3, 2, 2, 2, 2]"
    by (simp add: o1 o2)
  have u: "unchanged [] < 3 \<and> unchanged [3] < 3 \<and> unchanged [3, 2] < 3 \<and> unchanged [3, 2, 2] < 3
      \<and> unchanged [3, 2, 2, 2] < 3 \<and> 3 \<le> unchanged [3, 2, 2, 2, 2]"
    by (simp add: unchanged_Nil unchanged_examples)
  have b3: "\<forall>k<length [3, 2, 2 :: nat]. unchanged (take k [3, 2, 2]) < 3"
    by (simp add: All_less_Suc unchanged_Nil unchanged_examples)
  have b5: "\<forall>k<length [3, 2, 2, 2, 2 :: nat]. unchanged (take k [3, 2, 2, 2, 2]) < 3"
    by (simp add: All_less_Suc unchanged_Nil unchanged_examples)
  have r: "\<not> readyc example_peer" by (simp add: example_peer_fields)
  note t3 = Settle_exits [where p = example_peer and ticks = "[e1, e2, e2]" and obs = "[3, 2, 2]"
      and rest = "[e2]"]
  from t3 m3 b3 have w: "Settle example_peer [e1, e2, e2] = None" by blast
  from t3 m3 b3 r have "Settle example_peer ([e1, e2, e2] @ CtxDone # [e2])
      = Some (Inr (Cancelled, example_peer\<lparr>readyc := True, effects := effects example_peer @ [ClosedReady]\<rparr>))"
    by blast
  then have c: "Settle example_peer ([e1, e2, e2] @ CtxDone # [e2])
      = Some (Inr (Cancelled, example_peer\<lparr>readyc := True, effects := [ClosedReady]\<rparr>))"
    by (simp add: example_peer_fields)
  from Settle_exits [where p = example_peer and evs = "[e1, e2, e2] @ CtxDone # [e2]"
      and p' = "example_peer\<lparr>readyc := True, effects := [ClosedReady]\<rparr>"] c
  have ce: "effects (example_peer\<lparr>readyc := True, effects := [ClosedReady]\<rparr>)
      = effects example_peer @ [ClosedReady]"
    by blast
  from Settle_exits [where p = example_peer and ticks = "[e1, e2, e2, e2, e2]"
      and obs = "[3, 2, 2, 2, 2]" and ev = e2 and n = 2 and rest = "[]"] m5 b5 u o2 r
  have "Settle example_peer ([e1, e2, e2, e2, e2] @ e2 # [])
      = Some (Inr (Settled, example_peer\<lparr>readyc := True,
            effects := effects example_peer
              @ [Published (withPrefix example_peer fullStateChannelReq) (name example_peer), ClosedReady]\<rparr>))"
    by blast
  then have s: "Settle example_peer ([e1, e2, e2, e2, e2] @ e2 # [])
      = Some (Inr (Settled, example_peer\<lparr>readyc := True,
            effects := [Published ''am:full_state:request'' ''a'', ClosedReady]\<rparr>))"
    by (simp add: example_peer_fields withPrefix_def fullStateChannelReq_def fullStateChannel_def
        fullState_def)
  from Settle_exits [where p = example_peer and evs = "[e1, e2, e2, e2, e2] @ e2 # []"
      and p' = "example_peer\<lparr>readyc := True,
            effects := [Published ''am:full_state:request'' ''a'', ClosedReady]\<rparr>"] s
  have se: "effects (example_peer\<lparr>readyc := True,
           effects := [Published ''am:full_state:request'' ''a'', ClosedReady]\<rparr>)
       = effects example_peer
           @ [Published (withPrefix example_peer fullStateChannelReq) (name example_peer), ClosedReady]"
    by blast
  note facts = m3 u r w c ce s se
  from facts [unfolded e1_def e2_def] show ?thesis by blast
qed

subsection \<open>The delta channel\<close>

text \<open>
  C1 fails on the code. \<open>AddState\<close> stores the state under the key but binds the
  handle to the prefixed key, and \<open>Broadcast\<close> writes the handle's channel name into
  the envelope's key field. Under the prefix \<open>am:\<close> the envelope for the state
  \<open>nfl\<close> carries the key \<open>am:nfl\<close>; a receiver that has registered \<open>nfl\<close> finds no
  state under that key and merges nothing, while an envelope with the key \<open>nfl\<close> is
  merged.
\<close>

theorem Broadcast_envelope_key_prefixed:
  "states (fst (AddState example_peer ''nfl'' [''x''])) = [(''nfl'', [''x''])]
   \<and> channel (snd (AddState example_peer ''nfl'' [''x''])) = ''am:nfl''
   \<and> effects (Broadcast example_proto (snd (AddState example_peer ''nfl'' [''x''])) ''d'' None
        (fst (AddState example_peer ''nfl'' [''x''])))
       = [Published ''am:nfl'' ''am:nfl=d'']
   \<and> Unmarshal_Part example_proto ''am:nfl=d'' = Some (Part ''am:nfl'' ''d'')
   \<and> states (fst (AddState other_peer ''nfl'' [])) = [(''nfl'', [])]
   \<and> effects (receiveLoop_body example_State example_proto ''nfl'' (Message ''am:nfl=d'')
        (fst (AddState other_peer ''nfl'' []))) = []
   \<and> states (receiveLoop_body example_State example_proto ''nfl'' (Message ''am:nfl=d'')
        (fst (AddState other_peer ''nfl'' []))) = [(''nfl'', [])]
   \<and> effects (receiveLoop_body example_State example_proto ''nfl'' (Message ''nfl=d'')
        (fst (AddState other_peer ''nfl'' []))) = [Merged ''nfl'' ''d'']"
  by (simp add: AddState_def Broadcast_def receiveLoop_body_def withPrefix_def Let_def
      example_peer_fields other_peer_fields example_proto_simps example_State_simps
      decode_examples)

subsection \<open>Local state\<close>

text \<open>
  C5 fails on the code. \<open>LocalState\<close> goes on after a failed \<open>MarshalBinary\<close> and
  appends a part for that key all the same, with the bytes that came back with the
  error: the state \<open>sil\<close> fails to marshal and the full-state envelope that is
  published still holds a part for \<open>sil\<close>.
\<close>

theorem LocalState_keeps_failed_marshal:
  "states registered_peer = [(''nfl'', [''x'']), (''sil'', [])]
   \<and> MarshalBinary example_State [] = ([], Some ''nothing to marshal'')
   \<and> LocalState_all example_State registered_peer = FullState [Part ''nfl'' ''x'', Part ''sil'' []]
   \<and> fst (LocalState example_State example_proto registered_peer) = ''nfl=x;sil=;''
   \<and> effects (fullStateSyncPublish example_State example_proto registered_peer)
       = [Published ''am:full_state'' ''nfl=x;sil=;'']"
  by (simp add: LocalState_registered registered_peer_fields example_State_simps
      fullStateSyncPublish_effects withPrefix_def fullStateChannel_def fullState_def)

end
